theory Spec2Isabelle
  imports Main "HOL-Library.Sublist" "HOL-Library.Word"
begin

unbundle bit_operations_syntax

section \<open>Data model of platform/platform.cpp\<close>

text \<open>
  \<open>Platform::EError\<close>, in the order \<open>DebugPrint(Platform::EError)\<close> lists its members,
  and \<open>Platform::EFileType\<close>.
\<close>

datatype EError =
    ERR_OK
  | ERR_FILE_DOES_NOT_EXIST
  | ERR_ACCESS_FAILED
  | ERR_DIRECTORY_NOT_EMPTY
  | ERR_FILE_ALREADY_EXISTS
  | ERR_NAME_TOO_LONG
  | ERR_NOT_A_DIRECTORY
  | ERR_SYMLINK_LOOP
  | ERR_IO_ERROR
  | ERR_UNKNOWN

datatype EFileType = FILE_TYPE_UNKNOWN | FILE_TYPE_REGULAR | FILE_TYPE_DIRECTORY

text \<open>
  Modelled from the spec: the numeric values of \<open>Platform::EFileType\<close> (declared in
  platform/platform.hpp, which is not among the sources). The spec describes the
  enumeration as having "bitmask semantics for filtering": every member is one bit of
  its own, so that \<open>typeMask & type\<close> selects members.
\<close>

fun EFileType_bits :: "EFileType \<Rightarrow> 32 word" where
  "EFileType_bits FILE_TYPE_UNKNOWN = 1"
| "EFileType_bits FILE_TYPE_REGULAR = 2"
| "EFileType_bits FILE_TYPE_DIRECTORY = 4"

text \<open>
  The values of the \<open>errno.h\<close> macros differ between operating systems, so they are a
  parameter of the model. They are labels of one \<open>switch\<close>, hence pairwise distinct.
\<close>

record errno_codes =
  ENOENT :: int
  EACCES :: int
  ENOTEMPTY :: int
  EEXIST :: int
  ENAMETOOLONG :: int
  ENOTDIR :: int
  ELOOP :: int
  EIO :: int

definition errno_labels :: "errno_codes \<Rightarrow> int list" where
  "errno_labels c =
     [ENOENT c, EACCES c, ENOTEMPTY c, EEXIST c, ENAMETOOLONG c, ENOTDIR c, ELOOP c, EIO c]"

text \<open>The values on Linux (asm-generic/errno-base.h and errno.h).\<close>

definition linux_errno :: errno_codes where
  "linux_errno =
     \<lparr>ENOENT = 2, EACCES = 13, ENOTEMPTY = 39, EEXIST = 17,
      ENAMETOOLONG = 36, ENOTDIR = 20, ELOOP = 40, EIO = 5\<rparr>"

text \<open>\<open>Platform::ErrnoToError\<close>; the second argument is the value of \<open>errno\<close>.\<close>

definition ErrnoToError :: "errno_codes \<Rightarrow> int \<Rightarrow> EError" where
  "ErrnoToError c errno =
     (if errno = ENOENT c then ERR_FILE_DOES_NOT_EXIST
      else if errno = EACCES c then ERR_ACCESS_FAILED
      else if errno = ENOTEMPTY c then ERR_DIRECTORY_NOT_EMPTY
      else if errno = EEXIST c then ERR_FILE_ALREADY_EXISTS
      else if errno = ENAMETOOLONG c then ERR_NAME_TOO_LONG
      else if errno = ENOTDIR c then ERR_NOT_A_DIRECTORY
      else if errno = ELOOP c then ERR_SYMLINK_LOOP
      else if errno = EIO c then ERR_IO_ERROR
      else ERR_UNKNOWN)"

section \<open>Collaborators that are not part of platform.cpp\<close>

text \<open>
  The functions of platform.cpp call into the OS-specific part of \<open>Platform\<close>
  (\<open>GetFilesByRegExp\<close>, \<open>GetFileType\<close>, \<open>IsFileExistsByFullPath\<close>, \<open>RmDir\<close>) and into
  the \<open>my\<close> namespace (\<open>DeleteFileX\<close>, \<open>JoinFoldersToPath\<close>, \<open>JoinPath\<close>). None of these
  is defined in platform.cpp, so they are parameters of the model. Every call into the
  operating system takes the state of the world \<open>'fs\<close> and returns the new one together
  with its result; the two path-joining helpers are pure string functions.

  \<open>GetFileType\<close> returns the error code and the value of its out-parameter; the callers
  read the latter only when the former is \<open>ERR_OK\<close>. \<open>GetFilesByRegExp\<close> returns the names
  it appends to its out-parameter.
\<close>

record 'fs os =
  GetFilesByRegExp :: "string \<Rightarrow> string \<Rightarrow> 'fs \<Rightarrow> string list \<times> 'fs"
  GetFileType :: "string \<Rightarrow> 'fs \<Rightarrow> (EError \<times> EFileType) \<times> 'fs"
  IsFileExistsByFullPath :: "string \<Rightarrow> 'fs \<Rightarrow> bool \<times> 'fs"
  DeleteFileX :: "string \<Rightarrow> 'fs \<Rightarrow> bool \<times> 'fs"
  RmDir :: "string \<Rightarrow> 'fs \<Rightarrow> EError \<times> 'fs"
  JoinFoldersToPath :: "string \<Rightarrow> string \<Rightarrow> string"
  JoinPath :: "string \<Rightarrow> string \<Rightarrow> string"

text \<open>
  Modelled from the spec: the macros \<open>ASSERT\<close>, \<open>ASSERT_EQUAL\<close>, \<open>CHECK\<close>, \<open>CHECK_EQUAL\<close>
  (base/assert.hpp) and \<open>MYTHROW\<close> (base/exception.hpp), which are not among the sources.
  The spec calls a violated \<open>ASSERT\<close> or \<open>CHECK\<close> a fatal assertion that terminates the
  process with a diagnostic, and the thrown exception a recoverable condition. A
  function that can fail returns \<open>failure + 'a\<close>; the strings are the message parts
  the source passes to the macro.
\<close>

datatype failure =
    ASSERT_failed "string list"
  | CHECK_failed "string list"
  | FileAbsentException "string list"

fun is_fatal :: "failure \<Rightarrow> bool" where
  "is_fatal (ASSERT_failed m) = True"
| "is_fatal (CHECK_failed m) = True"
| "is_fatal (FileAbsentException m) = False"

text \<open>
  Modelled from the spec: \<open>base::WorkerThread\<close> (not among the sources), "an opaque handle
  over one of exactly three named background execution contexts" with the life cycle
  "running, shut down". A worker made by \<open>make_unique\<close> is running; \<open>ShutdownAndJoin\<close>
  "signals [it] to stop accepting new work, waits for [it] to drain its queue and
  terminate".
\<close>

datatype WorkerThread = Running | Terminated

definition ShutdownAndJoin :: "WorkerThread \<Rightarrow> WorkerThread" where
  "ShutdownAndJoin w = Terminated"

text \<open>The members of \<open>Platform\<close> that platform.cpp reads or writes.\<close>

record Platform =
  m_writableDir :: string
  m_resourcesDir :: string
  m_settingsDir :: string
  m_networkThread :: "WorkerThread option"
  m_fileThread :: "WorkerThread option"
  m_backgroundThread :: "WorkerThread option"

section \<open>The functions of platform.cpp\<close>

definition IsSpecialDirName :: "string \<Rightarrow> bool" where
  "IsSpecialDirName dirName = (dirName = ''.'' \<or> dirName = ''..'')"

subsection \<open>Root directories and \<open>ReadPathForFile\<close>\<close>




text \<open>
  The \<open>switch\<close> of \<open>ReadPathForFile\<close>: the candidate path of one scope character, \<open>None\<close>
  in the \<open>default\<close> branch.
\<close>

definition scope_path :: "Platform \<Rightarrow> string \<Rightarrow> char \<Rightarrow> string option" where
  "scope_path p file c =
     (if c = CHR ''w'' then Some (m_writableDir p @ file)
      else if c = CHR ''r'' then Some (m_resourcesDir p @ file)
      else if c = CHR ''s'' then Some (m_settingsDir p @ file)
      else if c = CHR ''f'' then Some file
      else None)"

definition possiblePaths :: "Platform \<Rightarrow> string" where
  "possiblePaths p =
     m_writableDir p @ ''\<newline>'' @ m_resourcesDir p @ ''\<newline>'' @ m_settingsDir p"

text \<open>
  The loop of \<open>ReadPathForFile\<close> over the characters of \<open>searchScope\<close> that are still to
  be visited, followed by the \<open>MYTHROW\<close> after the loop. The whole \<open>searchScope\<close> is kept
  for the two diagnostics.
\<close>

fun ReadPathForFile_loop ::
  "'fs os \<Rightarrow> Platform \<Rightarrow> string \<Rightarrow> string \<Rightarrow> string \<Rightarrow> 'fs \<Rightarrow> (failure + string) \<times> 'fs" where
  "ReadPathForFile_loop os p file searchScope [] s =
     (Inl (FileAbsentException
        [''File'', file, ''doesn't exist in the scope'', searchScope,
         ''Have been looking in:\<newline>'', possiblePaths p]), s)"
| "ReadPathForFile_loop os p file searchScope (c # cs) s =
     (case scope_path p file c of
        None \<Rightarrow> (Inl (CHECK_failed [''Unsupported searchScope:'', searchScope]), s)
      | Some fullPath \<Rightarrow>
          (case IsFileExistsByFullPath os fullPath s of
             (True, s') \<Rightarrow> (Inr fullPath, s')
           | (False, s') \<Rightarrow> ReadPathForFile_loop os p file searchScope cs s'))"

definition ReadPathForFile ::
  "'fs os \<Rightarrow> Platform \<Rightarrow> string \<Rightarrow> string \<Rightarrow> 'fs \<Rightarrow> (failure + string) \<times> 'fs" where
  "ReadPathForFile os p file searchScope s =
     (let searchScope = (if searchScope = [] then ''wrf'' else searchScope)
      in ReadPathForFile_loop os p file searchScope searchScope s)"

subsection \<open>Worker threads\<close>

definition RunThreads :: "Platform \<Rightarrow> failure + Platform" where
  "RunThreads p =
     (if \<not> (m_networkThread p = None \<and> m_fileThread p = None \<and> m_backgroundThread p = None)
      then Inl (ASSERT_failed [''!m_networkThread && !m_fileThread && !m_backgroundThread''])
      else Inr (p\<lparr>m_networkThread := Some Running,
                  m_fileThread := Some Running,
                  m_backgroundThread := Some Running\<rparr>))"

definition ShutdownThreads :: "Platform \<Rightarrow> failure + Platform" where
  "ShutdownThreads p =
     (if \<not> (m_networkThread p \<noteq> None \<and> m_fileThread p \<noteq> None \<and> m_backgroundThread p \<noteq> None)
      then Inl (ASSERT_failed [''m_networkThread && m_fileThread && m_backgroundThread''])
      else
        let p1 = p\<lparr>m_networkThread := map_option ShutdownAndJoin (m_networkThread p)\<rparr>;
            p2 = p1\<lparr>m_fileThread := map_option ShutdownAndJoin (m_fileThread p1)\<rparr>;
            p3 = p2\<lparr>m_backgroundThread := map_option ShutdownAndJoin (m_backgroundThread p2)\<rparr>
        in Inr (p3\<lparr>m_networkThread := None, m_fileThread := None,
                    m_backgroundThread := None\<rparr>))"

subsection \<open>File types and listings\<close>

definition IsDirectory :: "'fs os \<Rightarrow> string \<Rightarrow> 'fs \<Rightarrow> bool \<times> 'fs" where
  "IsDirectory os path s =
     (case GetFileType os path s of
        ((err, fileType), s') \<Rightarrow>
          if err \<noteq> ERR_OK then (False, s') else (fileType = FILE_TYPE_DIRECTORY, s'))"

definition GetFilesByExt ::
  "'fs os \<Rightarrow> string \<Rightarrow> string \<Rightarrow> string list \<Rightarrow> 'fs \<Rightarrow> (failure + string list) \<times> 'fs" where
  "GetFilesByExt os directory ext outFiles s =
     (if ext = [] then (Inl (ASSERT_failed [''!ext.empty()'']), s)
      else if hd ext \<noteq> CHR ''.'' then (Inl (ASSERT_failed [''ext[0] == '.' '']), s)
      else (case GetFilesByRegExp os directory (CHR 0x5C # ext @ ''$'') s of
              (found, s') \<Rightarrow> (Inr (outFiles @ found), s')))"

text \<open>The loop of \<open>GetFilesByType\<close> over \<open>allFiles\<close>.\<close>

fun GetFilesByType_loop ::
  "'fs os \<Rightarrow> string \<Rightarrow> 32 word \<Rightarrow> string list \<Rightarrow> (string \<times> EFileType) list \<Rightarrow> 'fs
     \<Rightarrow> (string \<times> EFileType) list \<times> 'fs" where
  "GetFilesByType_loop os directory typeMask [] outFiles s = (outFiles, s)"
| "GetFilesByType_loop os directory typeMask (file # allFiles) outFiles s =
     (case GetFileType os (JoinFoldersToPath os directory file) s of
        ((err, type), s') \<Rightarrow>
          if err \<noteq> ERR_OK then GetFilesByType_loop os directory typeMask allFiles outFiles s'
          else if typeMask AND EFileType_bits type \<noteq> 0
          then GetFilesByType_loop os directory typeMask allFiles (outFiles @ [(file, type)]) s'
          else GetFilesByType_loop os directory typeMask allFiles outFiles s')"

definition GetFilesByType ::
  "'fs os \<Rightarrow> string \<Rightarrow> 32 word \<Rightarrow> (string \<times> EFileType) list \<Rightarrow> 'fs
     \<Rightarrow> (string \<times> EFileType) list \<times> 'fs" where
  "GetFilesByType os directory typeMask outFiles s =
     (case GetFilesByRegExp os directory ''.*'' s of
        (allFiles, s') \<Rightarrow> GetFilesByType_loop os directory typeMask allFiles outFiles s')"

subsection \<open>\<open>GetFilesRecursively\<close>\<close>

text \<open>
  The first loop of \<open>GetFilesRecursively\<close>: every entry of \<open>files\<close> passes the
  \<open>CHECK_EQUAL\<close> and is appended to \<open>filesList\<close> as \<open>JoinPath(directory, file)\<close>.
\<close>

fun GetFilesRecursively_files ::
  "'fs os \<Rightarrow> string \<Rightarrow> (string \<times> EFileType) list \<Rightarrow> string list \<Rightarrow> failure + string list" where
  "GetFilesRecursively_files os directory [] filesList = Inr filesList"
| "GetFilesRecursively_files os directory ((file, type) # files) filesList =
     (if type \<noteq> FILE_TYPE_REGULAR
      then Inl (CHECK_failed [''dir:'', directory, ''file:'', file])
      else GetFilesRecursively_files os directory files (filesList @ [JoinPath os directory file]))"

text \<open>
  The second loop, over \<open>subdirs\<close>. Its first argument stands for the recursive call of
  \<open>GetFilesRecursively\<close>, which yields \<open>None\<close> when the recursion is deeper than the fuel
  allows.
\<close>

fun GetFilesRecursively_subdirs ::
  "(string \<Rightarrow> string list \<Rightarrow> 'fs \<Rightarrow> ((failure + string list) \<times> 'fs) option)
     \<Rightarrow> 'fs os \<Rightarrow> string \<Rightarrow> (string \<times> EFileType) list \<Rightarrow> string list \<Rightarrow> 'fs
     \<Rightarrow> ((failure + string list) \<times> 'fs) option" where
  "GetFilesRecursively_subdirs rec os directory [] filesList s = Some (Inr filesList, s)"
| "GetFilesRecursively_subdirs rec os directory ((subdir, type) # subdirs) filesList s =
     (if type \<noteq> FILE_TYPE_DIRECTORY
      then Some (Inl (CHECK_failed [''dir:'', directory, ''subdir:'', subdir]), s)
      else if subdir = ''.'' \<or> subdir = ''..''
      then GetFilesRecursively_subdirs rec os directory subdirs filesList s
      else (case rec (JoinPath os directory subdir) filesList s of
              None \<Rightarrow> None
            | Some (Inl e, s') \<Rightarrow> Some (Inl e, s')
            | Some (Inr filesList', s') \<Rightarrow>
                GetFilesRecursively_subdirs rec os directory subdirs filesList' s'))"

text \<open>
  \<open>Platform::GetFilesRecursively\<close>. The natural number bounds the depth of the
  recursion: \<open>None\<close> means that the bound was reached.
\<close>

fun GetFilesRecursively ::
  "'fs os \<Rightarrow> nat \<Rightarrow> string \<Rightarrow> string list \<Rightarrow> 'fs \<Rightarrow> ((failure + string list) \<times> 'fs) option" where
  "GetFilesRecursively os 0 directory filesList s = None"
| "GetFilesRecursively os (Suc n) directory filesList s =
     (case GetFilesByType os directory (EFileType_bits FILE_TYPE_REGULAR) [] s of
        (files, s1) \<Rightarrow>
          (case GetFilesRecursively_files os directory files filesList of
             Inl e \<Rightarrow> Some (Inl e, s1)
           | Inr filesList1 \<Rightarrow>
               (case GetFilesByType os directory (EFileType_bits FILE_TYPE_DIRECTORY) [] s1 of
                  (subdirs, s2) \<Rightarrow>
                    GetFilesRecursively_subdirs (\<lambda>d fl s'. GetFilesRecursively os n d fl s')
                      os directory subdirs filesList1 s2)))"

subsection \<open>\<open>RmDirRecursively\<close>\<close>

text \<open>
  The loop of \<open>RmDirRecursively\<close> over \<open>allFiles\<close>; \<open>res\<close> is the flag of the source. The
  first argument stands for the recursive call.
\<close>

fun RmDirRecursively_loop ::
  "(string \<Rightarrow> 'fs \<Rightarrow> (bool \<times> 'fs) option) \<Rightarrow> 'fs os \<Rightarrow> string \<Rightarrow> string list \<Rightarrow> bool \<Rightarrow> 'fs
     \<Rightarrow> (bool \<times> 'fs) option" where
  "RmDirRecursively_loop rec os dirName [] res s = Some (res, s)"
| "RmDirRecursively_loop rec os dirName (file # allFiles) res s =
     (let path = JoinFoldersToPath os dirName file in
      case GetFileType os path s of
        ((err, type), s1) \<Rightarrow>
          if err \<noteq> ERR_OK then RmDirRecursively_loop rec os dirName allFiles res s1
          else if type = FILE_TYPE_DIRECTORY
          then (if IsSpecialDirName file
                then RmDirRecursively_loop rec os dirName allFiles res s1
                else (case rec path s1 of
                        None \<Rightarrow> None
                      | Some (ok, s2) \<Rightarrow>
                          RmDirRecursively_loop rec os dirName allFiles
                            (if \<not> ok then False else res) s2))
          else (case DeleteFileX os path s1 of
                  (ok, s2) \<Rightarrow>
                    RmDirRecursively_loop rec os dirName allFiles
                      (if \<not> ok then False else res) s2))"

text \<open>
  \<open>Platform::RmDirRecursively\<close>, with the depth of the recursion bounded as above.
\<close>

fun RmDirRecursively :: "'fs os \<Rightarrow> nat \<Rightarrow> string \<Rightarrow> 'fs \<Rightarrow> (bool \<times> 'fs) option" where
  "RmDirRecursively os 0 dirName s = None"
| "RmDirRecursively os (Suc n) dirName s =
     (if dirName = [] \<or> IsSpecialDirName dirName then Some (False, s)
      else (case GetFilesByRegExp os dirName ''.*'' s of
              (allFiles, s1) \<Rightarrow>
                (case RmDirRecursively_loop (\<lambda>d s'. RmDirRecursively os n d s')
                        os dirName allFiles True s1 of
                   None \<Rightarrow> None
                 | Some (res, s2) \<Rightarrow>
                     (case RmDir os dirName s2 of
                        (err, s3) \<Rightarrow> Some (if err \<noteq> ERR_OK then False else res, s3)))))"

section \<open>Observing the calls into the operating system\<close>

text \<open>
  One event for every call into the operating system, with its arguments and its
  result.
\<close>

datatype event =
    Ev_GetFilesByRegExp string string "string list"
  | Ev_GetFileType string EError EFileType
  | Ev_IsFileExistsByFullPath string bool
  | Ev_DeleteFileX string bool
  | Ev_RmDir string EError

text \<open>
  \<open>logged os\<close> behaves as \<open>os\<close> does and records every call at the end of a log that it
  carries beside the state of \<open>os\<close>.
\<close>

definition logged :: "'fs os \<Rightarrow> ('fs \<times> event list) os" where
  "logged os =
     \<lparr>GetFilesByRegExp = (\<lambda>d re (s, tr).
        case GetFilesByRegExp os d re s of
          (r, s') \<Rightarrow> (r, (s', tr @ [Ev_GetFilesByRegExp d re r]))),
      GetFileType = (\<lambda>path (s, tr).
        case GetFileType os path s of
          ((err, type), s') \<Rightarrow> ((err, type), (s', tr @ [Ev_GetFileType path err type]))),
      IsFileExistsByFullPath = (\<lambda>path (s, tr).
        case IsFileExistsByFullPath os path s of
          (r, s') \<Rightarrow> (r, (s', tr @ [Ev_IsFileExistsByFullPath path r]))),
      DeleteFileX = (\<lambda>path (s, tr).
        case DeleteFileX os path s of
          (r, s') \<Rightarrow> (r, (s', tr @ [Ev_DeleteFileX path r]))),
      RmDir = (\<lambda>path (s, tr).
        case RmDir os path s of
          (r, s') \<Rightarrow> (r, (s', tr @ [Ev_RmDir path r]))),
      JoinFoldersToPath = JoinFoldersToPath os,
      JoinPath = JoinPath os\<rparr>"

text \<open>
  The calls that the spec prescribes for \<open>RemoveTreeRecursively\<close>, as a language of logs.
  \<open>rm_trace J dirName tr res\<close>: \<open>tr\<close> is a log of removing \<open>dirName\<close> with result \<open>res\<close>,
  where \<open>J\<close> joins a directory and an entry name.
  \<^item> An empty or pseudo \<open>dirName\<close> is refused: no call at all, result false.
  \<^item> Otherwise all entries are listed with the pattern \<open>.*\<close>, every listed entry is
    visited in turn whatever became of the entries before it, and at last the
    directory itself is removed; the result is the conjunction of the results of all
    entries and of the final removal.
  \<^item> An entry whose type query fails is skipped; so is a pseudo-entry that is a
    directory. Any other directory is removed by recursion, any other entry by
    deleting the file.
\<close>

inductive
  rm_trace :: "(string \<Rightarrow> string \<Rightarrow> string) \<Rightarrow> string \<Rightarrow> event list \<Rightarrow> bool \<Rightarrow> bool" and
  entries_trace ::
    "(string \<Rightarrow> string \<Rightarrow> string) \<Rightarrow> string \<Rightarrow> string list \<Rightarrow> event list \<Rightarrow> bool \<Rightarrow> bool" and
  entry_trace ::
    "(string \<Rightarrow> string \<Rightarrow> string) \<Rightarrow> string \<Rightarrow> string \<Rightarrow> event list \<Rightarrow> bool \<Rightarrow> bool"
  for J :: "string \<Rightarrow> string \<Rightarrow> string"
where
  refused:
    "dirName = [] \<or> IsSpecialDirName dirName \<Longrightarrow> rm_trace J dirName [] False"
| walked:
    "dirName \<noteq> [] \<Longrightarrow> \<not> IsSpecialDirName dirName \<Longrightarrow>
     entries_trace J dirName allFiles tr oks \<Longrightarrow>
     rm_trace J dirName
       (Ev_GetFilesByRegExp dirName ''.*'' allFiles # tr @ [Ev_RmDir dirName err])
       (oks \<and> err = ERR_OK)"
| no_entry:
    "entries_trace J dirName [] [] True"
| next_entry:
    "entry_trace J dirName file tr1 ok \<Longrightarrow> entries_trace J dirName allFiles tr2 oks \<Longrightarrow>
     entries_trace J dirName (file # allFiles) (tr1 @ tr2) (ok \<and> oks)"
| skipped:
    "err \<noteq> ERR_OK \<Longrightarrow>
     entry_trace J dirName file [Ev_GetFileType (J dirName file) err type] True"
| pseudo:
    "IsSpecialDirName file \<Longrightarrow>
     entry_trace J dirName file
       [Ev_GetFileType (J dirName file) ERR_OK FILE_TYPE_DIRECTORY] True"
| subdir:
    "\<not> IsSpecialDirName file \<Longrightarrow> rm_trace J (J dirName file) tr ok \<Longrightarrow>
     entry_trace J dirName file
       (Ev_GetFileType (J dirName file) ERR_OK FILE_TYPE_DIRECTORY # tr) ok"
| plain_file:
    "type \<noteq> FILE_TYPE_DIRECTORY \<Longrightarrow>
     entry_trace J dirName file
       [Ev_GetFileType (J dirName file) ERR_OK type, Ev_DeleteFileX (J dirName file) ok] ok"

text \<open>
  A sufficient condition for \<open>RmDirRecursively\<close> to return: a rank on paths that
  decreases from a directory to each of its listed entries that is an ordinary
  directory, whatever the state. (With a bound on the length of paths and \<open>J\<close>
  lengthening its first argument, the bound minus the length is such a rank.)
\<close>

definition ranked :: "'fs os \<Rightarrow> (string \<Rightarrow> nat) \<Rightarrow> bool" where
  "ranked os rank =
     (\<forall>d f s0 s. f \<in> set (fst (GetFilesByRegExp os d ''.*'' s0)) \<and> \<not> IsSpecialDirName f \<and>
        fst (GetFileType os (JoinFoldersToPath os d f) s) = (ERR_OK, FILE_TYPE_DIRECTORY)
        \<longrightarrow> rank (JoinFoldersToPath os d f) < rank d)"

section \<open>Directory trees\<close>

text \<open>
  What a walk sees of a directory: each listed entry is a regular file, a node of
  another type, a node whose type query fails with the given error, or a directory with
  its own entries. The entries \<open>.\<close> and \<open>..\<close> belong to the listing like any other entry;
  what is below them is never looked at.
\<close>

datatype fs_tree = Regular | Other | Unreadable EError | Dir "(string \<times> fs_tree) list"

text \<open>
  \<open>node_models os s d n t\<close>: in the state \<open>s\<close>, the entry \<open>n\<close> of the directory \<open>d\<close> looks
  like \<open>t\<close>, and looking at it leaves the state as it is.
\<close>

fun node_models :: "'fs os \<Rightarrow> 'fs \<Rightarrow> string \<Rightarrow> string \<Rightarrow> fs_tree \<Rightarrow> bool" where
  "node_models os s d n Regular =
     (GetFileType os (JoinFoldersToPath os d n) s = ((ERR_OK, FILE_TYPE_REGULAR), s))"
| "node_models os s d n Other =
     (GetFileType os (JoinFoldersToPath os d n) s = ((ERR_OK, FILE_TYPE_UNKNOWN), s))"
| "node_models os s d n (Unreadable e) =
     (e \<noteq> ERR_OK \<and> fst (fst (GetFileType os (JoinFoldersToPath os d n) s)) = e
      \<and> snd (GetFileType os (JoinFoldersToPath os d n) s) = s)"
| "node_models os s d n (Dir es) =
     (GetFileType os (JoinFoldersToPath os d n) s = ((ERR_OK, FILE_TYPE_DIRECTORY), s)
      \<and> (IsSpecialDirName n
         \<or> (GetFilesByRegExp os (JoinPath os d n) ''.*'' s = (map fst es, s)
            \<and> (\<forall>e \<in> set es. node_models os s (JoinPath os d n) (fst e) (snd e)))))"

definition dir_models :: "'fs os \<Rightarrow> 'fs \<Rightarrow> string \<Rightarrow> (string \<times> fs_tree) list \<Rightarrow> bool" where
  "dir_models os s d es =
     (GetFilesByRegExp os d ''.*'' s = (map fst es, s)
      \<and> (\<forall>e \<in> set es. node_models os s d (fst e) (snd e)))"

text \<open>
  The listing that the spec prescribes for \<open>ListRecursively\<close> on a directory \<open>d\<close> with the
  entries \<open>es\<close>: first the regular files directly under \<open>d\<close>, as full paths, then the
  listings of the subdirectories other than \<open>.\<close> and \<open>..\<close>, one after the other.
\<close>

fun is_Dir :: "fs_tree \<Rightarrow> bool" where
  "is_Dir (Dir es) = True"
| "is_Dir t = False"

fun files_of :: "'fs os \<Rightarrow> string \<Rightarrow> fs_tree \<Rightarrow> string list" where
  "files_of os d (Dir es) =
     map (\<lambda>e. JoinPath os d (fst e)) (filter (\<lambda>e. snd e = Regular) es)
     @ concat (map (\<lambda>e. files_of os (JoinPath os d (fst e)) (snd e))
         (filter (\<lambda>e. is_Dir (snd e) \<and> \<not> IsSpecialDirName (fst e)) es))"
| "files_of os d t = []"

fun height :: "fs_tree \<Rightarrow> nat" where
  "height (Dir es) = Suc (fold max (map (\<lambda>e. height (snd e)) es) 0)"
| "height t = 0"

section \<open>A table-driven double of the operating system\<close>

text \<open>
  Modelled from the spec: the OS shim \<open>ListDirectoryByPattern\<close> behind
  \<open>GetFilesByRegExp\<close> (platform-specific code, not among the sources), which "returns
  all entries whose name matches pattern". The pattern is a regular expression that is
  searched for in the name. Only the part of the pattern language that platform.cpp
  produces is modelled: a character that stands for itself, the escape \<open>\c\<close> of a
  character that is no letter, digit or underscore, the dot for any character but a line
  terminator, the star after one of these, and \<open>$\<close> for the end of the name. A pattern
  with any other operator is outside the model (\<open>None\<close>).
\<close>

datatype rx_token = Lit char | AnyChar | EndOfName | Star

definition rx_word_char :: "char \<Rightarrow> bool" where
  "rx_word_char c =
     (c \<in> set ''abcdefghijklmnopqrstuvwxyzABCDEFGHIJKLMNOPQRSTUVWXYZ0123456789_'')"

definition rx_operator :: "char \<Rightarrow> bool" where
  "rx_operator c = (c \<in> set ''^+?()[]{}|'')"

fun rx_tokens :: "string \<Rightarrow> rx_token list option" where
  "rx_tokens [] = Some []"
| "rx_tokens (c # cs) =
     (if c = CHR 0x5C then
        (case cs of
           [] \<Rightarrow> None
         | e # r \<Rightarrow> if rx_word_char e then None else map_option ((#) (Lit e)) (rx_tokens r))
      else if c = CHR ''.'' then map_option ((#) AnyChar) (rx_tokens cs)
      else if c = CHR ''$'' then map_option ((#) EndOfName) (rx_tokens cs)
      else if c = CHR ''*'' then map_option ((#) Star) (rx_tokens cs)
      else if rx_operator c then None
      else map_option ((#) (Lit c)) (rx_tokens cs))"

text \<open>The items of a pattern: a token and whether a star follows it.\<close>

fun rx_items :: "rx_token list \<Rightarrow> (rx_token \<times> bool) list option" where
  "rx_items [] = Some []"
| "rx_items (Star # ts) = None"
| "rx_items (EndOfName # Star # ts) = None"
| "rx_items (a # Star # ts) = map_option ((#) (a, True)) (rx_items ts)"
| "rx_items (a # ts) = map_option ((#) (a, False)) (rx_items ts)"

fun rx_char :: "rx_token \<Rightarrow> char \<Rightarrow> bool" where
  "rx_char (Lit a) c = (a = c)"
| "rx_char AnyChar c = (c \<noteq> CHR 0x0A \<and> c \<noteq> CHR 0x0D)"
| "rx_char t c = False"

text \<open>\<open>rx_match items name\<close>: the items match a prefix of \<open>name\<close>.\<close>

fun rx_match :: "(rx_token \<times> bool) list \<Rightarrow> string \<Rightarrow> bool" where
  "rx_match [] name = True"
| "rx_match ((EndOfName, b) # items) name = (name = [] \<and> rx_match items name)"
| "rx_match ((a, False) # items) [] = False"
| "rx_match ((a, False) # items) (c # name) = (rx_char a c \<and> rx_match items name)"
| "rx_match ((a, True) # items) [] = rx_match items []"
| "rx_match ((a, True) # items) (c # name) =
     (rx_match items (c # name) \<or> (rx_char a c \<and> rx_match ((a, True) # items) name))"

definition regex_search :: "string \<Rightarrow> string \<Rightarrow> bool option" where
  "regex_search regexp name =
     (case Option.bind (rx_tokens regexp) rx_items of
        None \<Rightarrow> None
      | Some items \<Rightarrow> Some (list_ex (rx_match items) (suffixes name)))"

text \<open>
  A small operating system over fixed tables: \<open>nodes\<close> gives the type of every path that
  can exist and whether it is locked (it then cannot be deleted), \<open>dirents\<close> the names
  that a directory can list. The state is the list of the paths that exist at the
  moment. A pattern outside the model matches nothing.
\<close>

record fs_tables =
  nodes :: "(string \<times> EFileType \<times> bool) list"
  dirents :: "(string \<times> string list) list"

definition tab_children :: "fs_tables \<Rightarrow> string \<Rightarrow> string list" where
  "tab_children tb d = (case map_of (dirents tb) d of None \<Rightarrow> [] | Some ns \<Rightarrow> ns)"

text \<open>The double joins a folder and a name with one slash between them.\<close>

definition tab_add_slash :: "string \<Rightarrow> string" where
  "tab_add_slash path = (if suffix ''/'' path then path else path @ ''/'')"

definition tab_join :: "string \<Rightarrow> string \<Rightarrow> string" where
  "tab_join folder file = tab_add_slash folder @ file"

definition tab_listing :: "fs_tables \<Rightarrow> string \<Rightarrow> string list \<Rightarrow> string list" where
  "tab_listing tb d s =
     (if d \<in> set s then filter (\<lambda>n. tab_join d n \<in> set s) (tab_children tb d) else [])"

definition tab_GetFileType :: "fs_tables \<Rightarrow> string \<Rightarrow> string list \<Rightarrow> EError \<times> EFileType" where
  "tab_GetFileType tb path s =
     (if path \<in> set s then
        (case map_of (nodes tb) path of
           None \<Rightarrow> (ERR_UNKNOWN, FILE_TYPE_UNKNOWN)
         | Some (type, locked) \<Rightarrow> (ERR_OK, type))
      else (ERR_FILE_DOES_NOT_EXIST, FILE_TYPE_UNKNOWN))"

definition tab_DeleteFileX :: "fs_tables \<Rightarrow> string \<Rightarrow> string list \<Rightarrow> bool \<times> string list" where
  "tab_DeleteFileX tb path s =
     (if path \<in> set s then
        (case map_of (nodes tb) path of
           None \<Rightarrow> (False, s)
         | Some (type, locked) \<Rightarrow>
             if type = FILE_TYPE_DIRECTORY \<or> locked then (False, s)
             else (True, removeAll path s))
      else (False, s))"

definition tab_RmDir :: "fs_tables \<Rightarrow> string \<Rightarrow> string list \<Rightarrow> EError \<times> string list" where
  "tab_RmDir tb path s =
     (if path \<in> set s then
        (case map_of (nodes tb) path of
           None \<Rightarrow> (ERR_UNKNOWN, s)
         | Some (type, locked) \<Rightarrow>
             if type \<noteq> FILE_TYPE_DIRECTORY then (ERR_NOT_A_DIRECTORY, s)
             else if filter (\<lambda>n. \<not> IsSpecialDirName n) (tab_listing tb path s) \<noteq> []
             then (ERR_DIRECTORY_NOT_EMPTY, s)
             else if locked then (ERR_ACCESS_FAILED, s)
             else (ERR_OK,
                   filter (\<lambda>q. q \<notin> {path, tab_join path ''.'', tab_join path ''..''}) s))
      else (ERR_FILE_DOES_NOT_EXIST, s))"

definition tab_os :: "fs_tables \<Rightarrow> (string list) os" where
  "tab_os tb =
     \<lparr>GetFilesByRegExp = (\<lambda>d re s.
        (filter (\<lambda>n. regex_search re n = Some True) (tab_listing tb d s), s)),
      GetFileType = (\<lambda>path s. (tab_GetFileType tb path s, s)),
      IsFileExistsByFullPath = (\<lambda>path s. (path \<in> set s, s)),
      DeleteFileX = tab_DeleteFileX tb,
      RmDir = tab_RmDir tb,
      JoinFoldersToPath = tab_join,
      JoinPath = (\<lambda>folder file. if folder = [] then file else tab_join folder file)\<rparr>"

section \<open>Vocabulary of the claims\<close>

text \<open>
  The candidate path of a scope character as the spec describes it: the root directory
  plus the file name for the writable, resource and settings scopes, the file name
  itself for the absolute-path scope.
\<close>

definition candidate :: "Platform \<Rightarrow> string \<Rightarrow> char \<Rightarrow> string" where
  "candidate p file c =
     (if c = CHR ''w'' then m_writableDir p @ file
      else if c = CHR ''r'' then m_resourcesDir p @ file
      else if c = CHR ''s'' then m_settingsDir p @ file
      else file)"

text \<open>Asking whether a path exists leaves the state \<open>s\<close> as it is.\<close>

definition read_only_exists :: "'fs os \<Rightarrow> 'fs \<Rightarrow> bool" where
  "read_only_exists os s = (\<forall>path. snd (IsFileExistsByFullPath os path s) = s)"

definition no_workers :: "Platform \<Rightarrow> bool" where
  "no_workers p =
     (m_networkThread p = None \<and> m_fileThread p = None \<and> m_backgroundThread p = None)"

definition all_workers :: "Platform \<Rightarrow> bool" where
  "all_workers p =
     (m_networkThread p \<noteq> None \<and> m_fileThread p \<noteq> None \<and> m_backgroundThread p \<noteq> None)"



text \<open>An event that is no failed deletion: a deletion of a file or a directory succeeded.\<close>

fun deletion_ok :: "event \<Rightarrow> bool" where
  "deletion_ok (Ev_DeleteFileX path ok) = ok"
| "deletion_ok (Ev_RmDir path err) = (err = ERR_OK)"
| "deletion_ok ev = True"

text \<open>
  Joining a directory and an entry name never yields the empty path or a pseudo-entry
  (a joined path contains the separator).
\<close>

definition proper_joins :: "'fs os \<Rightarrow> bool" where
  "proper_joins os =
     (\<forall>d f. JoinFoldersToPath os d f \<noteq> [] \<and> \<not> IsSpecialDirName (JoinFoldersToPath os d f))"

text \<open>
  \<open>regular_under os d t p\<close>: \<open>p\<close> is the full path of a regular file somewhere in the
  tree \<open>t\<close> of the directory \<open>d\<close>, reached through directories other than \<open>.\<close> and \<open>..\<close>.
\<close>

inductive regular_under :: "'fs os \<Rightarrow> string \<Rightarrow> fs_tree \<Rightarrow> string \<Rightarrow> bool" for os where
  here: "(n, Regular) \<in> set es \<Longrightarrow> regular_under os d (Dir es) (JoinPath os d n)"
| below: "(n, Dir es') \<in> set es \<Longrightarrow> \<not> IsSpecialDirName n \<Longrightarrow>
     regular_under os (JoinPath os d n) (Dir es') p \<Longrightarrow> regular_under os d (Dir es) p"

text \<open>A character that stands for itself in a pattern.\<close>

definition rx_plain :: "char \<Rightarrow> bool" where
  "rx_plain c =
     (c \<noteq> CHR 0x5C \<and> c \<noteq> CHR ''.'' \<and> c \<noteq> CHR ''$'' \<and> c \<noteq> CHR ''*'' \<and> \<not> rx_operator c)"

section \<open>Example file systems\<close>

text \<open>The tree \<open>root/{a.txt, sub/{b.txt}}\<close> of the spec.\<close>

definition tree_tables :: fs_tables where
  "tree_tables =
     \<lparr>nodes =
        [(''root'', FILE_TYPE_DIRECTORY, False),
         (''root/.'', FILE_TYPE_DIRECTORY, False),
         (''root/..'', FILE_TYPE_DIRECTORY, False),
         (''root/a.txt'', FILE_TYPE_REGULAR, False),
         (''root/sub'', FILE_TYPE_DIRECTORY, False),
         (''root/sub/.'', FILE_TYPE_DIRECTORY, False),
         (''root/sub/..'', FILE_TYPE_DIRECTORY, False),
         (''root/sub/b.txt'', FILE_TYPE_REGULAR, False)],
      dirents =
        [(''root'', [''.'', ''..'', ''a.txt'', ''sub'']),
         (''root/sub'', [''.'', ''..'', ''b.txt''])]\<rparr>"

definition tree_state :: "string list" where
  "tree_state = map fst (nodes tree_tables)"

definition tree_entries :: "(string \<times> fs_tree) list" where
  "tree_entries =
     [(''.'', Dir []), (''..'', Dir []), (''a.txt'', Regular),
      (''sub'', Dir [(''.'', Dir []), (''..'', Dir []), (''b.txt'', Regular)])]"

text \<open>
  A tree with one file that cannot be deleted: \<open>root/{a.txt, b.txt, sub/{c.txt}}\<close> with
  \<open>a.txt\<close> locked.
\<close>

definition del_tables :: fs_tables where
  "del_tables =
     \<lparr>nodes =
        [(''root'', FILE_TYPE_DIRECTORY, False),
         (''root/.'', FILE_TYPE_DIRECTORY, False),
         (''root/..'', FILE_TYPE_DIRECTORY, False),
         (''root/a.txt'', FILE_TYPE_REGULAR, True),
         (''root/b.txt'', FILE_TYPE_REGULAR, False),
         (''root/sub'', FILE_TYPE_DIRECTORY, False),
         (''root/sub/.'', FILE_TYPE_DIRECTORY, False),
         (''root/sub/..'', FILE_TYPE_DIRECTORY, False),
         (''root/sub/c.txt'', FILE_TYPE_REGULAR, False)],
      dirents =
        [(''root'', [''.'', ''..'', ''a.txt'', ''b.txt'', ''sub'']),
         (''root/sub'', [''.'', ''..'', ''c.txt''])]\<rparr>"

definition del_state :: "string list" where
  "del_state = map fst (nodes del_tables)"

definition del_rank :: "string \<Rightarrow> nat" where
  "del_rank path = (if path = ''root'' then 2 else if path = ''root/sub'' then 1 else 0)"

text \<open>Root directories \<open>w/\<close>, \<open>r/\<close>, \<open>s/\<close> and a file present under two of them.\<close>

definition example_platform :: Platform where
  "example_platform =
     \<lparr>m_writableDir = ''w/'', m_resourcesDir = ''r/'', m_settingsDir = ''s/'',
      m_networkThread = None, m_fileThread = None, m_backgroundThread = None\<rparr>"

definition scope_tables :: fs_tables where
  "scope_tables =
     \<lparr>nodes =
        [(''w/both.txt'', FILE_TYPE_REGULAR, False),
         (''r/both.txt'', FILE_TYPE_REGULAR, False),
         (''r/res.txt'', FILE_TYPE_REGULAR, False),
         (''r'', FILE_TYPE_DIRECTORY, False)],
      dirents = [(''r'', [''both.txt'', ''res.txt''])]\<rparr>"

definition scope_state :: "string list" where
  "scope_state = map fst (nodes scope_tables)"

text \<open>A directory of map files and archives.\<close>

definition ext_tables :: fs_tables where
  "ext_tables =
     \<lparr>nodes =
        [(''maps'', FILE_TYPE_DIRECTORY, False),
         (''maps/World.mwm'', FILE_TYPE_REGULAR, False),
         (''maps/a.mwmX'', FILE_TYPE_REGULAR, False),
         (''maps/b.xmwm'', FILE_TYPE_REGULAR, False),
         (''maps/x.tar.gz'', FILE_TYPE_REGULAR, False),
         (''maps/y.tarXgz'', FILE_TYPE_REGULAR, False)],
      dirents =
        [(''maps'', [''World.mwm'', ''a.mwmX'', ''b.xmwm'', ''x.tar.gz'', ''y.tarXgz''])]\<rparr>"

definition ext_state :: "string list" where
  "ext_state = map fst (nodes ext_tables)"

section \<open>The error mapping\<close>

text \<open>
  Claim C7. \<open>ErrnoToError\<close> is a total function of the last OS error code: each of the
  eight listed codes is mapped to its documented error kind (ENOENT to
  FileDoesNotExist, EACCES to AccessFailed, ENOTEMPTY to DirectoryNotEmpty, EEXIST to
  FileAlreadyExists, ENAMETOOLONG to NameTooLong, ENOTDIR to NotADirectory, ELOOP to
  SymlinkLoop, EIO to IOError), and every other code is mapped to Unknown. The function
  is pure: its value depends on the code alone, and it is never \<open>ERR_OK\<close>.
\<close>

theorem ErrnoToError_table:
  assumes "distinct (errno_labels c)"
  shows "ErrnoToError c (ENOENT c) = ERR_FILE_DOES_NOT_EXIST
       \<and> ErrnoToError c (EACCES c) = ERR_ACCESS_FAILED
       \<and> ErrnoToError c (ENOTEMPTY c) = ERR_DIRECTORY_NOT_EMPTY
       \<and> ErrnoToError c (EEXIST c) = ERR_FILE_ALREADY_EXISTS
       \<and> ErrnoToError c (ENAMETOOLONG c) = ERR_NAME_TOO_LONG
       \<and> ErrnoToError c (ENOTDIR c) = ERR_NOT_A_DIRECTORY
       \<and> ErrnoToError c (ELOOP c) = ERR_SYMLINK_LOOP
       \<and> ErrnoToError c (EIO c) = ERR_IO_ERROR
       \<and> (\<forall>e. e \<notin> set (errno_labels c) \<longrightarrow> ErrnoToError c e = ERR_UNKNOWN)
       \<and> (\<forall>e. ErrnoToError c e \<noteq> ERR_OK)"
  using assms by (auto simp: ErrnoToError_def errno_labels_def)

theorem ErrnoToError_table_witness:
  "distinct (errno_labels linux_errno)
   \<and> ErrnoToError linux_errno 2 = ERR_FILE_DOES_NOT_EXIST
   \<and> ErrnoToError linux_errno 13 = ERR_ACCESS_FAILED
   \<and> ErrnoToError linux_errno 39 = ERR_DIRECTORY_NOT_EMPTY
   \<and> ErrnoToError linux_errno 17 = ERR_FILE_ALREADY_EXISTS
   \<and> ErrnoToError linux_errno 36 = ERR_NAME_TOO_LONG
   \<and> ErrnoToError linux_errno 20 = ERR_NOT_A_DIRECTORY
   \<and> ErrnoToError linux_errno 40 = ERR_SYMLINK_LOOP
   \<and> ErrnoToError linux_errno 5 = ERR_IO_ERROR
   \<and> ErrnoToError linux_errno 0 = ERR_UNKNOWN
   \<and> ErrnoToError linux_errno 1 = ERR_UNKNOWN"
proof -
  have d: "distinct (errno_labels linux_errno)"
    by (simp add: errno_labels_def linux_errno_def)
  have u: "\<forall>e. e \<notin> set (errno_labels linux_errno) \<longrightarrow> ErrnoToError linux_errno e = ERR_UNKNOWN"
    using ErrnoToError_table [OF d] by blast
  have "(0::int) \<notin> set (errno_labels linux_errno)" "(1::int) \<notin> set (errno_labels linux_errno)"
    by (simp_all add: errno_labels_def linux_errno_def)
  with u have "ErrnoToError linux_errno 0 = ERR_UNKNOWN" "ErrnoToError linux_errno 1 = ERR_UNKNOWN"
    by blast+
  moreover have "ENOENT linux_errno = 2" "EACCES linux_errno = 13" "ENOTEMPTY linux_errno = 39"
    "EEXIST linux_errno = 17" "ENAMETOOLONG linux_errno = 36" "ENOTDIR linux_errno = 20"
    "ELOOP linux_errno = 40" "EIO linux_errno = 5"
    by (simp_all add: linux_errno_def)
  ultimately show ?thesis
    using d ErrnoToError_table [OF d] by simp
qed

section \<open>Resolving a file name over the scopes\<close>

lemma scope_path_candidate:
  "c \<in> set ''wrsf'' \<Longrightarrow> scope_path p file c = Some (candidate p file c)"
  by (auto simp: scope_path_def candidate_def)

lemma scope_path_None: "c \<notin> set ''wrsf'' \<Longrightarrow> scope_path p file c = None"
  by (auto simp: scope_path_def)

lemma ReadPathForFile_loop_find:
  assumes ro: "read_only_exists os s"
  shows "set cs \<subseteq> set ''wrsf'' \<Longrightarrow>
    ReadPathForFile_loop os p file scope cs s =
      (case find (\<lambda>path. fst (IsFileExistsByFullPath os path s)) (map (candidate p file) cs) of
         Some path \<Rightarrow> Inr path
       | None \<Rightarrow> Inl (FileAbsentException
           [''File'', file, ''doesn't exist in the scope'', scope,
            ''Have been looking in:\<newline>'', possiblePaths p]), s)"
proof (induction cs)
  case Nil
  show ?case by simp
next
  case (Cons c cs)
  then have c: "scope_path p file c = Some (candidate p file c)"
    and cs: "set cs \<subseteq> set ''wrsf''"
    using scope_path_candidate [of c] by auto
  obtain b s' where e: "IsFileExistsByFullPath os (candidate p file c) s = (b, s')"
    by (cases "IsFileExistsByFullPath os (candidate p file c) s")
  with ro have s': "s' = s"
    unfolding read_only_exists_def by (metis snd_conv)
  show ?case
    using Cons.IH [OF cs] c e s' by (cases b) simp_all
qed

lemma ReadPathForFile_loop_not_fatal:
  "set cs \<subseteq> set ''wrsf'' \<Longrightarrow>
   (case fst (ReadPathForFile_loop os p file scope cs s) of
      Inl f \<Rightarrow> \<not> is_fatal f | Inr path \<Rightarrow> True)"
proof (induction cs arbitrary: s)
  case Nil
  show ?case by simp
next
  case (Cons c cs)
  then have c: "scope_path p file c = Some (candidate p file c)"
    and cs: "set cs \<subseteq> set ''wrsf''"
    using scope_path_candidate [of c] by auto
  obtain b s' where e: "IsFileExistsByFullPath os (candidate p file c) s = (b, s')"
    by (cases "IsFileExistsByFullPath os (candidate p file c) s")
  show ?case
    using Cons.IH [OF cs, of s'] c e by (cases b) simp_all
qed

lemma ReadPathForFile_loop_CHECK:
  assumes ro: "read_only_exists os s"
  shows "set pre \<subseteq> set ''wrsf'' \<Longrightarrow> c \<notin> set ''wrsf'' \<Longrightarrow>
    \<forall>x \<in> set pre. \<not> fst (IsFileExistsByFullPath os (candidate p file x) s) \<Longrightarrow>
    ReadPathForFile_loop os p file scope (pre @ c # post) s =
      (Inl (CHECK_failed [''Unsupported searchScope:'', scope]), s)"
proof (induction pre)
  case Nil
  then show ?case by (simp add: scope_path_None)
next
  case (Cons x pre)
  then have x: "scope_path p file x = Some (candidate p file x)"
    using scope_path_candidate [of x] by auto
  obtain b s' where e: "IsFileExistsByFullPath os (candidate p file x) s = (b, s')"
    by (cases "IsFileExistsByFullPath os (candidate p file x) s")
  with ro have s': "s' = s"
    unfolding read_only_exists_def by (metis snd_conv)
  from Cons.prems e have b: "\<not> b" by simp
  show ?case
    using Cons x e s' b by simp
qed

lemma read_only_exists_tab: "read_only_exists (tab_os tb) s"
  by (simp add: read_only_exists_def tab_os_def)

text \<open>
  Claim C3. For every file name and every scope specifier over the characters w, r, s
  and f, an empty specifier standing for \<open>wrf\<close>, \<open>ReadPathForFile\<close> returns the first
  candidate path, in the order of the specifier, that exists (the root directory plus
  the file name for w, r and s, the file name itself for f). In particular under \<open>wrf\<close>
  the candidate in the writable root wins whenever it exists, whatever exists in the
  resource root. When no candidate exists, a \<open>FileAbsentException\<close> is thrown whose
  message ends with the writable, the resource and the settings root. The existence
  query is assumed to leave the file system as it is.
\<close>

theorem ReadPathForFile_first_existing:
  assumes "set searchScope \<subseteq> set ''wrsf''" and "read_only_exists os s"
  shows "ReadPathForFile os p file searchScope s =
      (case find (\<lambda>path. fst (IsFileExistsByFullPath os path s))
              (map (candidate p file) (if searchScope = [] then ''wrf'' else searchScope)) of
         Some path \<Rightarrow> Inr path
       | None \<Rightarrow> Inl (FileAbsentException
           [''File'', file, ''doesn't exist in the scope'',
            if searchScope = [] then ''wrf'' else searchScope,
            ''Have been looking in:\<newline>'',
            m_writableDir p @ ''\<newline>'' @ m_resourcesDir p @ ''\<newline>'' @ m_settingsDir p]), s)
    \<and> (fst (IsFileExistsByFullPath os (m_writableDir p @ file) s) \<longrightarrow>
         ReadPathForFile os p file ''wrf'' s = (Inr (m_writableDir p @ file), s)
         \<and> ReadPathForFile os p file [] s = (Inr (m_writableDir p @ file), s))"
proof -
  let ?scope = "if searchScope = [] then ''wrf'' else searchScope"
  from assms(1) have sub: "set ?scope \<subseteq> set ''wrsf''" by auto
  have wrf: "set ''wrf'' \<subseteq> set ''wrsf''" by simp
  have "ReadPathForFile os p file searchScope s = ReadPathForFile_loop os p file ?scope ?scope s"
    by (simp add: ReadPathForFile_def Let_def del: ReadPathForFile_loop.simps)
  then have first: "ReadPathForFile os p file searchScope s =
      (case find (\<lambda>path. fst (IsFileExistsByFullPath os path s)) (map (candidate p file) ?scope) of
         Some path \<Rightarrow> Inr path
       | None \<Rightarrow> Inl (FileAbsentException
           [''File'', file, ''doesn't exist in the scope'', ?scope,
            ''Have been looking in:\<newline>'',
            m_writableDir p @ ''\<newline>'' @ m_resourcesDir p @ ''\<newline>'' @ m_settingsDir p]), s)"
    using ReadPathForFile_loop_find [OF assms(2) sub, unfolded possiblePaths_def] by (simp only:)
  have "ReadPathForFile os p file ''wrf'' s = (Inr (m_writableDir p @ file), s)
      \<and> ReadPathForFile os p file [] s = (Inr (m_writableDir p @ file), s)"
    if "fst (IsFileExistsByFullPath os (m_writableDir p @ file) s)"
    using that ReadPathForFile_loop_find [OF assms(2) wrf, of p "file" "''wrf''"]
    by (simp add: ReadPathForFile_def Let_def candidate_def del: ReadPathForFile_loop.simps)
  with first show ?thesis by blast
qed

theorem ReadPathForFile_first_existing_witness:
  "set ''rwf'' \<subseteq> set ''wrsf'' \<and> read_only_exists (tab_os scope_tables) scope_state
   \<and> ReadPathForFile (tab_os scope_tables) example_platform ''both.txt'' ''rwf'' scope_state =
       (Inr ''r/both.txt'', scope_state)
   \<and> ReadPathForFile (tab_os scope_tables) example_platform ''both.txt'' ''wrf'' scope_state =
       (Inr ''w/both.txt'', scope_state)
   \<and> ReadPathForFile (tab_os scope_tables) example_platform ''none.txt'' ''rwf'' scope_state =
       (Inl (FileAbsentException
          [''File'', ''none.txt'', ''doesn't exist in the scope'', ''rwf'',
           ''Have been looking in:\<newline>'', ''w/\<newline>r/\<newline>s/'']), scope_state)"
proof -
  have sc: "set ''rwf'' \<subseteq> set ''wrsf''" by simp
  have ro: "read_only_exists (tab_os scope_tables) scope_state"
    by (rule read_only_exists_tab)
  have ex: "IsFileExistsByFullPath (tab_os scope_tables) path scope_state =
      (path \<in> set scope_state, scope_state)" for path
    by (simp add: tab_os_def)
  have st: "scope_state = [''w/both.txt'', ''r/both.txt'', ''r/res.txt'', ''r'']"
    by (simp add: scope_state_def scope_tables_def)
  have "ReadPathForFile (tab_os scope_tables) example_platform ''both.txt'' ''rwf'' scope_state =
       (Inr ''r/both.txt'', scope_state)"
    using ReadPathForFile_first_existing [OF sc ro, of example_platform "''both.txt''"]
    by (simp add: ex candidate_def example_platform_def) (simp add: st)
  moreover
  have "ReadPathForFile (tab_os scope_tables) example_platform ''both.txt'' ''wrf'' scope_state =
       (Inr ''w/both.txt'', scope_state)"
    using ReadPathForFile_first_existing [OF sc ro, of example_platform "''both.txt''"]
    by (simp add: ex candidate_def example_platform_def) (simp add: st)
  moreover
  have "ReadPathForFile (tab_os scope_tables) example_platform ''none.txt'' ''rwf'' scope_state =
       (Inl (FileAbsentException
          [''File'', ''none.txt'', ''doesn't exist in the scope'', ''rwf'',
           ''Have been looking in:\<newline>'', ''w/\<newline>r/\<newline>s/'']), scope_state)"
    using ReadPathForFile_first_existing [OF sc ro, of example_platform "''none.txt''"]
    by (simp add: ex candidate_def example_platform_def) (simp add: st)
  ultimately show ?thesis using sc ro by blast
qed

text \<open>
  Claim C8. In \<open>ReadPathForFile\<close>, a scope specifier whose characters are all among w, r,
  s and f never reaches the fatal check: the call returns a path or throws the
  recoverable \<open>FileAbsentException\<close>. A specifier with any other character, reached
  before a candidate that exists has been found, ends in the failed \<open>CHECK\<close> with the
  specifier as its diagnostic, which is fatal, and neither returns nor throws. The
  existence query is assumed to leave the file system as it is.
\<close>

theorem ReadPathForFile_unsupported_scope:
  "(set searchScope \<subseteq> set ''wrsf'' \<longrightarrow>
      (case fst (ReadPathForFile os p file searchScope s) of
         Inl f \<Rightarrow> \<not> is_fatal f | Inr path \<Rightarrow> True))
   \<and> (read_only_exists os s \<and> searchScope = pre @ c # post \<and> set pre \<subseteq> set ''wrsf''
        \<and> c \<notin> set ''wrsf''
        \<and> (\<forall>x \<in> set pre. \<not> fst (IsFileExistsByFullPath os (candidate p file x) s)) \<longrightarrow>
      ReadPathForFile os p file searchScope s =
        (Inl (CHECK_failed [''Unsupported searchScope:'', searchScope]), s)
      \<and> is_fatal (CHECK_failed [''Unsupported searchScope:'', searchScope]))"
proof (intro conjI impI)
  assume a: "set searchScope \<subseteq> set ''wrsf''"
  let ?scope = "if searchScope = [] then ''wrf'' else searchScope"
  from a have "set ?scope \<subseteq> set ''wrsf''" by auto
  from ReadPathForFile_loop_not_fatal [OF this]
  have "case fst (ReadPathForFile_loop os p file ?scope ?scope s) of
         Inl f \<Rightarrow> \<not> is_fatal f | Inr path \<Rightarrow> True" .
  moreover have "ReadPathForFile os p file searchScope s =
      ReadPathForFile_loop os p file ?scope ?scope s"
    by (simp add: ReadPathForFile_def Let_def del: ReadPathForFile_loop.simps)
  ultimately show "case fst (ReadPathForFile os p file searchScope s) of
         Inl f \<Rightarrow> \<not> is_fatal f | Inr path \<Rightarrow> True"
    by (simp only:)
next
  assume a: "read_only_exists os s \<and> searchScope = pre @ c # post \<and> set pre \<subseteq> set ''wrsf''
        \<and> c \<notin> set ''wrsf''
        \<and> (\<forall>x \<in> set pre. \<not> fst (IsFileExistsByFullPath os (candidate p file x) s))"
  then have ne: "searchScope \<noteq> []" by auto
  from a have "ReadPathForFile_loop os p file searchScope (pre @ c # post) s =
      (Inl (CHECK_failed [''Unsupported searchScope:'', searchScope]), s)"
    by (intro ReadPathForFile_loop_CHECK) auto
  with a ne show "ReadPathForFile os p file searchScope s =
        (Inl (CHECK_failed [''Unsupported searchScope:'', searchScope]), s)"
    by (simp add: ReadPathForFile_def Let_def del: ReadPathForFile_loop.simps)
next
  show "is_fatal (CHECK_failed [''Unsupported searchScope:'', searchScope])" by simp
qed

theorem ReadPathForFile_unsupported_scope_witness:
  "set ''wrsf'' \<subseteq> set ''wrsf''
   \<and> (case fst (ReadPathForFile (tab_os scope_tables) example_platform ''none.txt'' ''wrsf''
         scope_state) of Inl f \<Rightarrow> \<not> is_fatal f | Inr path \<Rightarrow> True)
   \<and> read_only_exists (tab_os scope_tables) scope_state
   \<and> ''wxr'' = ''w'' @ CHR ''x'' # ''r'' \<and> set ''w'' \<subseteq> set ''wrsf'' \<and> CHR ''x'' \<notin> set ''wrsf''
   \<and> \<not> fst (IsFileExistsByFullPath (tab_os scope_tables)
          (candidate example_platform ''res.txt'' CHR ''w'') scope_state)
   \<and> ReadPathForFile (tab_os scope_tables) example_platform ''res.txt'' ''wxr'' scope_state =
       (Inl (CHECK_failed [''Unsupported searchScope:'', ''wxr'']), scope_state)"
proof -
  have ro: "read_only_exists (tab_os scope_tables) scope_state"
    by (rule read_only_exists_tab)
  have absent: "\<forall>x \<in> set ''w''. \<not> fst (IsFileExistsByFullPath (tab_os scope_tables)
          (candidate example_platform ''res.txt'' x) scope_state)"
    by (simp add: tab_os_def candidate_def example_platform_def scope_state_def scope_tables_def)
  have sc: "set ''wrsf'' \<subseteq> set ''wrsf''" by simp
  have parts: "''wxr'' = ''w'' @ CHR ''x'' # ''r''" "set ''w'' \<subseteq> set ''wrsf''"
    "CHR ''x'' \<notin> set ''wrsf''"
    by simp_all
  from ReadPathForFile_unsupported_scope
    [of "''wrsf''" "tab_os scope_tables" example_platform "''none.txt''" scope_state]
  have "case fst (ReadPathForFile (tab_os scope_tables) example_platform ''none.txt'' ''wrsf''
         scope_state) of Inl f \<Rightarrow> \<not> is_fatal f | Inr path \<Rightarrow> True"
    using sc by blast
  moreover
  from ReadPathForFile_unsupported_scope
    [of "''wxr''" "tab_os scope_tables" example_platform "''res.txt''" scope_state
        "''w''" "CHR ''x''" "''r''"]
  have "ReadPathForFile (tab_os scope_tables) example_platform ''res.txt'' ''wxr'' scope_state =
       (Inl (CHECK_failed [''Unsupported searchScope:'', ''wxr'']), scope_state)"
    using ro absent parts by blast
  moreover from absent have "\<not> fst (IsFileExistsByFullPath (tab_os scope_tables)
          (candidate example_platform ''res.txt'' CHR ''w'') scope_state)"
    by simp
  ultimately show ?thesis using ro parts sc by blast
qed

section \<open>File types\<close>

text \<open>
  Claim C5. For every path, \<open>IsDirectory\<close> returns true exactly when the file-type query
  succeeds and reports a directory. It returns false both when the query succeeds with
  another type and when the query fails (as for a path that does not exist), so the two
  cases cannot be told apart by the result; the state is the one the query leaves.
\<close>

theorem IsDirectory_swallows_failure:
  "IsDirectory os path s =
     (fst (GetFileType os path s) = (ERR_OK, FILE_TYPE_DIRECTORY), snd (GetFileType os path s))
   \<and> (fst (fst (GetFileType os path s)) \<noteq> ERR_OK \<longrightarrow> \<not> fst (IsDirectory os path s))
   \<and> (snd (fst (GetFileType os path s)) \<noteq> FILE_TYPE_DIRECTORY \<longrightarrow>
        \<not> fst (IsDirectory os path s))"
  by (auto simp: IsDirectory_def split: prod.splits)

theorem IsDirectory_swallows_failure_witness:
  "fst (fst (GetFileType (tab_os tree_tables) ''root/none'' tree_state)) \<noteq> ERR_OK
   \<and> \<not> fst (IsDirectory (tab_os tree_tables) ''root/none'' tree_state)
   \<and> snd (fst (GetFileType (tab_os tree_tables) ''root/a.txt'' tree_state)) \<noteq> FILE_TYPE_DIRECTORY
   \<and> \<not> fst (IsDirectory (tab_os tree_tables) ''root/a.txt'' tree_state)
   \<and> fst (IsDirectory (tab_os tree_tables) ''root/sub'' tree_state)"
proof -
  have q: "fst (GetFileType (tab_os tree_tables) ''root/none'' tree_state) =
      (ERR_FILE_DOES_NOT_EXIST, FILE_TYPE_UNKNOWN)"
    "fst (GetFileType (tab_os tree_tables) ''root/a.txt'' tree_state) = (ERR_OK, FILE_TYPE_REGULAR)"
    "fst (GetFileType (tab_os tree_tables) ''root/sub'' tree_state) = (ERR_OK, FILE_TYPE_DIRECTORY)"
    by (simp_all add: tab_os_def tab_GetFileType_def tree_state_def tree_tables_def)
  show ?thesis
    using IsDirectory_swallows_failure [of "tab_os tree_tables" "''root/none''" tree_state]
      IsDirectory_swallows_failure [of "tab_os tree_tables" "''root/a.txt''" tree_state]
      IsDirectory_swallows_failure [of "tab_os tree_tables" "''root/sub''" tree_state]
    by (simp add: q)
qed

section \<open>Worker threads\<close>

text \<open>
  Claim C9. Misuse of the worker life cycle is a fatal assertion, not a recoverable
  error. \<open>RunThreads\<close> asserts that none of the three workers (network, file, background)
  exists and then creates all three; \<open>ShutdownThreads\<close> asserts that all three exist and
  then joins and releases all three. Hence a second \<open>RunThreads\<close> right after a successful
  one fails the assertion, and so does \<open>ShutdownThreads\<close> when no worker exists; after a
  successful \<open>RunThreads\<close> all three workers exist, and after a successful
  \<open>ShutdownThreads\<close> none does.
\<close>

theorem worker_lifecycle:
  "(no_workers p \<longrightarrow>
      (\<exists>p'. RunThreads p = Inr p' \<and> all_workers p'
         \<and> (\<exists>f. RunThreads p' = Inl f \<and> is_fatal f)
         \<and> (\<exists>p''. ShutdownThreads p' = Inr p'' \<and> no_workers p''))
      \<and> (\<exists>f. ShutdownThreads p = Inl f \<and> is_fatal f))
   \<and> (\<not> no_workers p \<longrightarrow> (\<exists>f. RunThreads p = Inl f \<and> is_fatal f))
   \<and> (all_workers p \<longrightarrow>
        (\<exists>p'. ShutdownThreads p = Inr p' \<and> no_workers p'
           \<and> (\<exists>f. ShutdownThreads p' = Inl f \<and> is_fatal f)))
   \<and> (\<not> all_workers p \<longrightarrow> (\<exists>f. ShutdownThreads p = Inl f \<and> is_fatal f))"
  by (auto simp: RunThreads_def ShutdownThreads_def no_workers_def all_workers_def Let_def)

theorem worker_lifecycle_witness:
  "no_workers example_platform
   \<and> (\<exists>p'. RunThreads example_platform = Inr p' \<and> all_workers p'
         \<and> (\<exists>f. RunThreads p' = Inl f \<and> is_fatal f)
         \<and> (\<exists>p''. ShutdownThreads p' = Inr p'' \<and> no_workers p''))
   \<and> (\<exists>f. ShutdownThreads example_platform = Inl f \<and> is_fatal f)"
proof -
  have n: "no_workers example_platform"
    by (simp add: no_workers_def example_platform_def)
  with worker_lifecycle [of example_platform] show ?thesis by blast
qed

section \<open>Root directories\<close>




section \<open>Removing a directory tree\<close>

text \<open>
  Claim C6. \<open>RmDirRecursively\<close> with the directory name \<open>""\<close>, \<open>.\<close> or \<open>..\<close> returns false at
  once and performs no operation on the file system: whatever the operating system is,
  no call into it is logged (no listing, no type query, no deletion) and the state is
  the one before the call.
\<close>

theorem RmDirRecursively_refuses:
  "RmDirRecursively (logged os) (Suc n) [] (s, tr) = Some (False, (s, tr))
   \<and> RmDirRecursively (logged os) (Suc n) ''.'' (s, tr) = Some (False, (s, tr))
   \<and> RmDirRecursively (logged os) (Suc n) ''..'' (s, tr) = Some (False, (s, tr))
   \<and> RmDirRecursively os (Suc n) [] s = Some (False, s)
   \<and> RmDirRecursively os (Suc n) ''.'' s = Some (False, s)
   \<and> RmDirRecursively os (Suc n) ''..'' s = Some (False, s)"
  by (simp add: IsSpecialDirName_def)

subsection \<open>The log of a run\<close>
lemma logged_simps [simp]:
  "GetFilesByRegExp (logged os) d re (s, tr) =
     (case GetFilesByRegExp os d re s of (r, s') \<Rightarrow> (r, (s', tr @ [Ev_GetFilesByRegExp d re r])))"
  "GetFileType (logged os) path (s, tr) =
     (case GetFileType os path s of
        ((err, type), s') \<Rightarrow> ((err, type), (s', tr @ [Ev_GetFileType path err type])))"
  "IsFileExistsByFullPath (logged os) path (s, tr) =
     (case IsFileExistsByFullPath os path s of
        (r, s') \<Rightarrow> (r, (s', tr @ [Ev_IsFileExistsByFullPath path r])))"
  "DeleteFileX (logged os) path (s, tr) =
     (case DeleteFileX os path s of (r, s') \<Rightarrow> (r, (s', tr @ [Ev_DeleteFileX path r])))"
  "RmDir (logged os) path (s, tr) =
     (case RmDir os path s of (r, s') \<Rightarrow> (r, (s', tr @ [Ev_RmDir path r])))"
  "JoinFoldersToPath (logged os) = JoinFoldersToPath os"
  "JoinPath (logged os) = JoinPath os"
  by (simp_all add: logged_def)

lemma RmDirRecursively_loop_trace:
  assumes rec: "\<And>p s tr ok s' tr'. rec p (s, tr) = Some (ok, (s', tr')) \<Longrightarrow>
      \<exists>tr1. tr' = tr @ tr1 \<and> rm_trace (JoinFoldersToPath os) p tr1 ok"
  shows "RmDirRecursively_loop rec (logged os) d files res (s, tr) = Some (res', (s', tr')) \<Longrightarrow>
    \<exists>tr1 oks. tr' = tr @ tr1 \<and> entries_trace (JoinFoldersToPath os) d files tr1 oks
       \<and> res' = (res \<and> oks)"
proof (induction files arbitrary: res s tr)
  case Nil
  then show ?case by (auto intro: no_entry)
next
  case (Cons f files)
  let ?J = "JoinFoldersToPath os"
  obtain err ty s1 where q: "GetFileType os (?J d f) s = ((err, ty), s1)"
    by (metis surj_pair)
  let ?ev = "Ev_GetFileType (?J d f) err ty"
  consider (c_skip) "err \<noteq> ERR_OK"
    | (c_pseudo) "err = ERR_OK" "ty = FILE_TYPE_DIRECTORY" "IsSpecialDirName f"
    | (c_sub) "err = ERR_OK" "ty = FILE_TYPE_DIRECTORY" "\<not> IsSpecialDirName f"
    | (c_file) "err = ERR_OK" "ty \<noteq> FILE_TYPE_DIRECTORY"
    by blast
  then show ?case
  proof cases
    case c_skip
    with Cons.prems q have
      "RmDirRecursively_loop rec (logged os) d files res (s1, tr @ [?ev]) = Some (res', (s', tr'))"
      by (simp add: Let_def)
    from Cons.IH [OF this] obtain tr1 oks where
      t: "tr' = (tr @ [?ev]) @ tr1" "entries_trace ?J d files tr1 oks" "res' = (res \<and> oks)"
      by blast
    have e: "entry_trace ?J d f [?ev] True" using c_skip by (rule skipped)
    have "entries_trace ?J d (f # files) ([?ev] @ tr1) (True \<and> oks)"
      using e t(2) by (rule next_entry)
    moreover have "tr' = tr @ ([?ev] @ tr1)" using t(1) by simp
    moreover have "res' = (res \<and> (True \<and> oks))" using t(3) by simp
    ultimately show ?thesis by blast
  next
    case c_pseudo
    with Cons.prems q have
      "RmDirRecursively_loop rec (logged os) d files res (s1, tr @ [?ev]) = Some (res', (s', tr'))"
      by (simp add: Let_def)
    from Cons.IH [OF this] obtain tr1 oks where
      t: "tr' = (tr @ [?ev]) @ tr1" "entries_trace ?J d files tr1 oks" "res' = (res \<and> oks)"
      by blast
    have e: "entry_trace ?J d f [?ev] True"
      using c_pseudo rm_trace_entries_trace_entry_trace.pseudo [of f ?J d] by simp
    have "entries_trace ?J d (f # files) ([?ev] @ tr1) (True \<and> oks)"
      using e t(2) by (rule next_entry)
    moreover have "tr' = tr @ ([?ev] @ tr1)" using t(1) by simp
    moreover have "res' = (res \<and> (True \<and> oks))" using t(3) by simp
    ultimately show ?thesis by blast
  next
    case c_sub
    from Cons.prems q c_sub obtain ok s2 tr2 where
      r: "rec (?J d f) (s1, tr @ [?ev]) = Some (ok, (s2, tr2))"
      and l: "RmDirRecursively_loop rec (logged os) d files (if \<not> ok then False else res) (s2, tr2)
          = Some (res', (s', tr'))"
      by (auto simp: Let_def split: option.splits)
    from rec [OF r] obtain trr where trr: "tr2 = (tr @ [?ev]) @ trr" "rm_trace ?J (?J d f) trr ok"
      by blast
    from Cons.IH [OF l] obtain tr1 oks where
      t: "tr' = tr2 @ tr1" "entries_trace ?J d files tr1 oks"
         "res' = ((if \<not> ok then False else res) \<and> oks)"
      by blast
    have e: "entry_trace ?J d f (?ev # trr) ok"
      using c_sub trr(2) subdir [of f ?J d trr ok] by simp
    have "entries_trace ?J d (f # files) ((?ev # trr) @ tr1) (ok \<and> oks)"
      using e t(2) by (rule next_entry)
    moreover have "tr' = tr @ ((?ev # trr) @ tr1)" using t(1) trr(1) by simp
    moreover have "res' = (res \<and> (ok \<and> oks))" using t(3) by auto
    ultimately show ?thesis by blast
  next
    case c_file
    obtain ok s2 where del: "DeleteFileX os (?J d f) s1 = (ok, s2)"
      by (metis surj_pair)
    let ?dv = "Ev_DeleteFileX (?J d f) ok"
    from Cons.prems q c_file del have
      l: "RmDirRecursively_loop rec (logged os) d files (if \<not> ok then False else res)
            (s2, (tr @ [?ev]) @ [?dv]) = Some (res', (s', tr'))"
      by (simp add: Let_def)
    from Cons.IH [OF l] obtain tr1 oks where
      t: "tr' = ((tr @ [?ev]) @ [?dv]) @ tr1" "entries_trace ?J d files tr1 oks"
         "res' = ((if \<not> ok then False else res) \<and> oks)"
      by blast
    have e: "entry_trace ?J d f [?ev, ?dv] ok"
      using c_file plain_file [of ty ?J d f ok] by simp
    have "entries_trace ?J d (f # files) ([?ev, ?dv] @ tr1) (ok \<and> oks)"
      using e t(2) by (rule next_entry)
    moreover have "tr' = tr @ ([?ev, ?dv] @ tr1)" using t(1) by simp
    moreover have "res' = (res \<and> (ok \<and> oks))" using t(3) by auto
    ultimately show ?thesis by blast
  qed
qed

lemma RmDirRecursively_trace:
  "RmDirRecursively (logged os) n d (s, tr) = Some (res, (s', tr')) \<Longrightarrow>
   \<exists>tr1. tr' = tr @ tr1 \<and> rm_trace (JoinFoldersToPath os) d tr1 res"
proof (induction n arbitrary: d s tr res s' tr')
  case 0
  then show ?case by simp
next
  case (Suc n)
  let ?J = "JoinFoldersToPath os"
  show ?case
  proof (cases "d = [] \<or> IsSpecialDirName d")
    case True
    with Suc.prems have "res = False" "tr' = tr" by auto
    moreover have "rm_trace ?J d [] False" using True by (rule refused)
    ultimately show ?thesis by simp
  next
    case False
    obtain allFiles s1 where ls: "GetFilesByRegExp os d ''.*'' s = (allFiles, s1)"
      by (metis surj_pair)
    let ?lv = "Ev_GetFilesByRegExp d ''.*'' allFiles"
    from Suc.prems False ls obtain res2 s2 tr2 where
      l: "RmDirRecursively_loop (\<lambda>d s'. RmDirRecursively (logged os) n d s') (logged os) d allFiles
            True (s1, tr @ [?lv]) = Some (res2, (s2, tr2))"
      and fin: "(case RmDir (logged os) d (s2, tr2) of
                   (err, s3) \<Rightarrow> Some (if err \<noteq> ERR_OK then False else res2, s3))
                = Some (res, (s', tr'))"
      by (auto split: option.splits)
    obtain err s3 where rm: "RmDir os d s2 = (err, s3)"
      by (metis surj_pair)
    from fin rm have r: "res = (res2 \<and> err = ERR_OK)" "tr' = tr2 @ [Ev_RmDir d err]"
      by (auto split: if_splits)
    have "\<exists>tr1 oks. tr2 = (tr @ [?lv]) @ tr1 \<and> entries_trace ?J d allFiles tr1 oks
        \<and> res2 = (True \<and> oks)"
      by (rule RmDirRecursively_loop_trace [OF _ l]) (rule Suc.IH)
    then obtain tr1 where t: "tr2 = (tr @ [?lv]) @ tr1" "entries_trace ?J d allFiles tr1 res2"
      by auto
    from False t(2) have "rm_trace ?J d (?lv # tr1 @ [Ev_RmDir d err]) (res2 \<and> err = ERR_OK)"
      by (intro walked) auto
    moreover have "tr' = tr @ (?lv # tr1 @ [Ev_RmDir d err])" using r(2) t(1) by simp
    ultimately show ?thesis using r(1) by blast
  qed
qed


subsection \<open>Enough fuel\<close>


lemma RmDirRecursively_loop_total:
  assumes rec: "\<And>p s. rank p < n \<Longrightarrow> \<exists>r. rec p s = Some r"
  shows "\<forall>f \<in> set files. \<forall>s. \<not> IsSpecialDirName f \<and>
        fst (GetFileType os (JoinFoldersToPath os d f) s) = (ERR_OK, FILE_TYPE_DIRECTORY)
        \<longrightarrow> rank (JoinFoldersToPath os d f) < n \<Longrightarrow>
    \<exists>r. RmDirRecursively_loop rec os d files res s = Some r"
proof (induction files arbitrary: res s)
  case Nil
  show ?case by simp
next
  case (Cons f files)
  let ?p = "JoinFoldersToPath os d f"
  obtain err ty s1 where q: "GetFileType os ?p s = ((err, ty), s1)"
    by (metis surj_pair)
  have rest: "\<exists>r. RmDirRecursively_loop rec os d files res' s' = Some r" for res' s'
    using Cons.IH Cons.prems by simp
  show ?case
  proof (cases "err = ERR_OK \<and> ty = FILE_TYPE_DIRECTORY \<and> \<not> IsSpecialDirName f")
    case True
    with q Cons.prems have "rank ?p < n" by (metis fst_conv list.set_intros(1))
    from rec [OF this] obtain ok s2 where "rec ?p s1 = Some (ok, s2)" by (metis surj_pair)
    with True q rest show ?thesis by (simp add: Let_def)
  next
    case False
    obtain ok s2 where "DeleteFileX os ?p s1 = (ok, s2)" by (metis surj_pair)
    with False q rest show ?thesis by (auto simp: Let_def)
  qed
qed

lemma RmDirRecursively_total:
  "ranked os rank \<Longrightarrow> rank d < n \<Longrightarrow> \<exists>r. RmDirRecursively os n d s = Some r"
proof (induction n arbitrary: d s)
  case 0
  then show ?case by simp
next
  case (Suc n)
  show ?case
  proof (cases "d = [] \<or> IsSpecialDirName d")
    case True
    then show ?thesis by auto
  next
    case False
    obtain allFiles s1 where ls: "GetFilesByRegExp os d ''.*'' s = (allFiles, s1)"
      by (metis surj_pair)
    have files: "\<forall>f \<in> set allFiles. \<forall>s. \<not> IsSpecialDirName f \<and>
        fst (GetFileType os (JoinFoldersToPath os d f) s) = (ERR_OK, FILE_TYPE_DIRECTORY)
        \<longrightarrow> rank (JoinFoldersToPath os d f) < n"
    proof (intro ballI allI impI)
      fix f s'
      assume f: "f \<in> set allFiles" and
        "\<not> IsSpecialDirName f \<and>
          fst (GetFileType os (JoinFoldersToPath os d f) s') = (ERR_OK, FILE_TYPE_DIRECTORY)"
      moreover from f ls have "f \<in> set (fst (GetFilesByRegExp os d ''.*'' s))" by simp
      ultimately have "rank (JoinFoldersToPath os d f) < rank d"
        using Suc.prems(1) unfolding ranked_def by blast
      with Suc.prems(2) show "rank (JoinFoldersToPath os d f) < n" by simp
    qed
    have "\<exists>r. RmDirRecursively_loop (\<lambda>d s'. RmDirRecursively os n d s') os d allFiles True s1 = Some r"
      by (rule RmDirRecursively_loop_total [OF _ files]) (rule Suc.IH [OF Suc.prems(1)])
    then obtain res s2 where
      "RmDirRecursively_loop (\<lambda>d s'. RmDirRecursively os n d s') os d allFiles True s1 = Some (res, s2)"
      by (metis surj_pair)
    moreover obtain err s3 where "RmDir os d s2 = (err, s3)" by (metis surj_pair)
    ultimately show ?thesis using False ls by simp
  qed
qed

lemma RmDirRecursively_loop_mono:
  assumes rec: "\<And>p s r. rec p s = Some r \<Longrightarrow> rec' p s = Some r"
  shows "RmDirRecursively_loop rec os d files res s = Some r \<Longrightarrow>
    RmDirRecursively_loop rec' os d files res s = Some r"
proof (induction files arbitrary: res s)
  case Nil
  then show ?case by simp
next
  case (Cons f files)
  then show ?case
    by (auto simp: Let_def split: prod.splits if_splits option.splits dest: rec)
qed

lemma RmDirRecursively_walk_intro:
  "d \<noteq> [] \<Longrightarrow> \<not> IsSpecialDirName d \<Longrightarrow>
   GetFilesByRegExp os d ''.*'' s = (allFiles, s1) \<Longrightarrow>
   RmDirRecursively_loop (\<lambda>d s'. RmDirRecursively os n d s') os d allFiles True s1 = Some (res, s2) \<Longrightarrow>
   RmDir os d s2 = (err, s3) \<Longrightarrow>
   RmDirRecursively os (Suc n) d s = Some (if err \<noteq> ERR_OK then False else res, s3)"
  by simp

lemma RmDirRecursively_walk_elim:
  assumes "RmDirRecursively os (Suc n) d s = Some r" "d \<noteq> []" "\<not> IsSpecialDirName d"
  obtains allFiles s1 res s2 err s3 where
    "GetFilesByRegExp os d ''.*'' s = (allFiles, s1)"
    "RmDirRecursively_loop (\<lambda>d s'. RmDirRecursively os n d s') os d allFiles True s1 = Some (res, s2)"
    "RmDir os d s2 = (err, s3)"
    "r = (if err \<noteq> ERR_OK then False else res, s3)"
  using assms by (auto split: prod.splits option.splits)

lemma RmDirRecursively_Suc:
  "RmDirRecursively os n d s = Some r \<Longrightarrow> RmDirRecursively os (Suc n) d s = Some r"
proof (induction n arbitrary: d s r)
  case 0
  then show ?case by simp
next
  case (Suc n)
  show ?case
  proof (cases "d = [] \<or> IsSpecialDirName d")
    case True
    with Suc.prems show ?thesis by auto
  next
    case False
    then have d: "d \<noteq> []" "\<not> IsSpecialDirName d" by simp_all
    from Suc.prems d obtain allFiles s1 res s2 err s3 where
      ls: "GetFilesByRegExp os d ''.*'' s = (allFiles, s1)" and
      l: "RmDirRecursively_loop (\<lambda>d s'. RmDirRecursively os n d s') os d allFiles True s1 = Some (res, s2)" and
      rm: "RmDir os d s2 = (err, s3)" and
      r: "r = (if err \<noteq> ERR_OK then False else res, s3)"
      by (rule RmDirRecursively_walk_elim)
    have "RmDirRecursively_loop (\<lambda>d s'. RmDirRecursively os (Suc n) d s') os d allFiles True s1 = Some (res, s2)"
      by (rule RmDirRecursively_loop_mono [OF _ l]) (rule Suc.IH)
    from RmDirRecursively_walk_intro [OF d ls this rm] r show ?thesis by simp
  qed
qed

lemma RmDirRecursively_fuel:
  "RmDirRecursively os n d s = Some r \<Longrightarrow> n \<le> m \<Longrightarrow> RmDirRecursively os m d s = Some r"
proof (induction m)
  case 0
  then show ?case by simp
next
  case (Suc m)
  show ?case
  proof (cases "n = Suc m")
    case True
    with Suc.prems show ?thesis by simp
  next
    case False
    with Suc.prems have "n \<le> m" by simp
    from Suc.IH [OF Suc.prems(1) this] show ?thesis by (rule RmDirRecursively_Suc)
  qed
qed

lemma ranked_logged:
  assumes "ranked os rank"
  shows "ranked (logged os) rank"
  unfolding ranked_def
proof (intro allI impI)
  fix d f and s0 s :: "'a \<times> event list"
  assume a: "f \<in> set (fst (GetFilesByRegExp (logged os) d ''.*'' s0)) \<and> \<not> IsSpecialDirName f \<and>
       fst (GetFileType (logged os) (JoinFoldersToPath (logged os) d f) s) = (ERR_OK, FILE_TYPE_DIRECTORY)"
  obtain a0 t0 where s0: "s0 = (a0, t0)" by (cases s0)
  obtain a1 t1 where s: "s = (a1, t1)" by (cases s)
  have "fst (GetFilesByRegExp (logged os) d ''.*'' s0) = fst (GetFilesByRegExp os d ''.*'' a0)"
    by (simp add: s0 split: prod.splits)
  moreover have "fst (GetFileType (logged os) (JoinFoldersToPath os d f) s) =
      fst (GetFileType os (JoinFoldersToPath os d f) a1)"
    by (simp add: s split: prod.splits)
  ultimately show "rank (JoinFoldersToPath (logged os) d f) < rank (d)"
    using a assms unfolding ranked_def by simp blast
qed


subsection \<open>Logging changes nothing\<close>


lemma RmDirRecursively_loop_logged:
  assumes rec: "\<And>p s tr. map_option (\<lambda>x. (fst x, fst (snd x))) (rec' p (s, tr)) = rec p s"
  shows "map_option (\<lambda>x. (fst x, fst (snd x)))
      (RmDirRecursively_loop rec' (logged os) d files res (s, tr)) =
    RmDirRecursively_loop rec os d files res s"
proof (induction files arbitrary: res s tr)
  case Nil
  show ?case by simp
next
  case (Cons f files)
  let ?p = "JoinFoldersToPath os d f"
  obtain err ty s1 where q: "GetFileType os ?p s = ((err, ty), s1)"
    by (metis surj_pair)
  let ?tr1 = "tr @ [Ev_GetFileType ?p err ty]"
  show ?case
  proof (cases "err = ERR_OK \<and> ty = FILE_TYPE_DIRECTORY \<and> \<not> IsSpecialDirName f")
    case True
    show ?thesis
    proof (cases "rec' ?p (s1, ?tr1)")
      case None
      with rec [of ?p s1 ?tr1] have "rec ?p s1 = None" by simp
      with None True q show ?thesis by (simp add: Let_def)
    next
      case (Some x)
      obtain ok s2 tr2 where x: "x = (ok, (s2, tr2))" by (metis surj_pair)
      with Some rec [of ?p s1 ?tr1] have "rec ?p s1 = Some (ok, s2)" by simp
      with Some x True q Cons.IH [of "if \<not> ok then False else res" s2 tr2]
      show ?thesis by (simp add: Let_def)
    qed
  next
    case False
    obtain ok s2 where "DeleteFileX os ?p s1 = (ok, s2)" by (metis surj_pair)
    with False q Cons.IH show ?thesis by (auto simp: Let_def)
  qed
qed

lemma RmDirRecursively_logged:
  "map_option (\<lambda>x. (fst x, fst (snd x))) (RmDirRecursively (logged os) n d (s, tr)) =
   RmDirRecursively os n d s"
proof (induction n arbitrary: d s tr)
  case 0
  show ?case by simp
next
  case (Suc n)
  show ?case
  proof (cases "d = [] \<or> IsSpecialDirName d")
    case True
    then show ?thesis by auto
  next
    case False
    obtain allFiles s1 where ls: "GetFilesByRegExp os d ''.*'' s = (allFiles, s1)"
      by (metis surj_pair)
    let ?tr1 = "tr @ [Ev_GetFilesByRegExp d ''.*'' allFiles]"
    have l: "map_option (\<lambda>x. (fst x, fst (snd x)))
        (RmDirRecursively_loop (\<lambda>d s'. RmDirRecursively (logged os) n d s') (logged os) d allFiles
           True (s1, ?tr1)) =
      RmDirRecursively_loop (\<lambda>d s'. RmDirRecursively os n d s') os d allFiles True s1"
      by (rule RmDirRecursively_loop_logged) (rule Suc.IH)
    show ?thesis
    proof (cases "RmDirRecursively_loop (\<lambda>d s'. RmDirRecursively (logged os) n d s') (logged os) d
        allFiles True (s1, ?tr1)")
      case None
      with l have "RmDirRecursively_loop (\<lambda>d s'. RmDirRecursively os n d s') os d allFiles True s1 = None"
        by simp
      with None False ls show ?thesis by simp
    next
      case (Some x)
      obtain res s2 tr2 where x: "x = (res, (s2, tr2))" by (metis surj_pair)
      with Some l have
        "RmDirRecursively_loop (\<lambda>d s'. RmDirRecursively os n d s') os d allFiles True s1 = Some (res, s2)"
        by simp
      moreover obtain err s3 where "RmDir os d s2 = (err, s3)" by (metis surj_pair)
      ultimately show ?thesis using Some x False ls by simp
    qed
  qed
qed

lemma trace_deletions:
  assumes J: "\<forall>d f. J d f \<noteq> [] \<and> \<not> IsSpecialDirName (J d f)"
  shows "rm_trace J d tr res \<Longrightarrow> d \<noteq> [] \<and> \<not> IsSpecialDirName d \<longrightarrow> res = list_all deletion_ok tr"
    and "entries_trace J d' files tr' oks \<Longrightarrow> oks = list_all deletion_ok tr'"
    and "entry_trace J d'' f tr'' ok \<Longrightarrow> ok = list_all deletion_ok tr''"
proof (induction rule: rm_trace_entries_trace_entry_trace.inducts)
  case (subdir fname dirName tr ok)
  then show ?case using J by simp
qed auto


subsection \<open>The best-effort policy\<close>

lemma tab_join_slash: "CHR ''/'' \<in> set (tab_join d f)"
  by (auto simp: tab_join_def tab_add_slash_def suffix_def)

lemma proper_joins_tab: "proper_joins (tab_os tb)"
  unfolding proper_joins_def
proof (intro allI)
  fix d f
  have "CHR ''/'' \<in> set (JoinFoldersToPath (tab_os tb) d f)"
    by (simp add: tab_os_def tab_join_slash)
  then show "JoinFoldersToPath (tab_os tb) d f \<noteq> []
      \<and> \<not> IsSpecialDirName (JoinFoldersToPath (tab_os tb) d f)"
    by (auto simp: IsSpecialDirName_def)
qed

lemma regex_search_all [simp]: "regex_search ''.*'' name = Some True"
proof -
  have "rx_match [(AnyChar, True)] [] = True" by simp
  moreover have "[] \<in> set (suffixes name)" by (simp add: in_set_suffixes)
  ultimately have "list_ex (rx_match [(AnyChar, True)]) (suffixes name)"
    unfolding list_ex_iff by blast
  then show ?thesis by (simp add: regex_search_def)
qed

lemma ranked_del: "ranked (tab_os del_tables) del_rank"
  unfolding ranked_def
proof (intro allI impI)
  fix d f and s0 s :: "string list"
  assume a: "f \<in> set (fst (GetFilesByRegExp (tab_os del_tables) d ''.*'' s0))
    \<and> \<not> IsSpecialDirName f
    \<and> fst (GetFileType (tab_os del_tables) (JoinFoldersToPath (tab_os del_tables) d f) s) =
        (ERR_OK, FILE_TYPE_DIRECTORY)"
  then have "f \<in> set (tab_children del_tables d)"
    by (auto simp: tab_os_def tab_listing_def split: if_splits)
  then consider "d = ''root''" "f \<in> set [''.'', ''..'', ''a.txt'', ''b.txt'', ''sub'']"
    | "d = ''root/sub''" "f \<in> set [''.'', ''..'', ''c.txt'']"
    by (auto simp: tab_children_def del_tables_def split: if_splits)
  then show "del_rank (JoinFoldersToPath (tab_os del_tables) d f) < del_rank d"
  proof cases
    case 1
    with a show ?thesis
      by (auto simp: tab_os_def tab_join_def tab_add_slash_def suffix_def del_rank_def
          IsSpecialDirName_def tab_GetFileType_def del_tables_def split: if_splits)
  next
    case 2
    with a show ?thesis
      by (auto simp: tab_os_def tab_join_def tab_add_slash_def suffix_def del_rank_def
          IsSpecialDirName_def tab_GetFileType_def del_tables_def split: if_splits)
  qed
qed

lemma del_run:
  "RmDirRecursively (tab_os del_tables) (Suc (Suc (Suc 0))) ''root'' del_state =
     Some (False, [''root'', ''root/.'', ''root/..'', ''root/a.txt''])"
  by (simp add: tab_os_def del_tables_def del_state_def tab_listing_def tab_children_def
      tab_join_def tab_add_slash_def suffix_def tab_GetFileType_def tab_DeleteFileX_def
      tab_RmDir_def IsSpecialDirName_def Let_def)

text \<open>
  The same run with its log: the failed deletion of \<open>root/a.txt\<close> is followed by the
  deletion of its siblings \<open>root/b.txt\<close> and \<open>root/sub\<close>, and only the final removal of
  \<open>root\<close> fails with it.
\<close>

lemma del_run_logged:
  "RmDirRecursively (logged (tab_os del_tables)) (Suc (Suc (Suc 0))) ''root'' (del_state, []) =
     Some (False, [''root'', ''root/.'', ''root/..'', ''root/a.txt''],
       [Ev_GetFilesByRegExp ''root'' ''.*'' [''.'', ''..'', ''a.txt'', ''b.txt'', ''sub''],
        Ev_GetFileType ''root/.'' ERR_OK FILE_TYPE_DIRECTORY,
        Ev_GetFileType ''root/..'' ERR_OK FILE_TYPE_DIRECTORY,
        Ev_GetFileType ''root/a.txt'' ERR_OK FILE_TYPE_REGULAR,
        Ev_DeleteFileX ''root/a.txt'' False,
        Ev_GetFileType ''root/b.txt'' ERR_OK FILE_TYPE_REGULAR,
        Ev_DeleteFileX ''root/b.txt'' True,
        Ev_GetFileType ''root/sub'' ERR_OK FILE_TYPE_DIRECTORY,
        Ev_GetFilesByRegExp ''root/sub'' ''.*'' [''.'', ''..'', ''c.txt''],
        Ev_GetFileType ''root/sub/.'' ERR_OK FILE_TYPE_DIRECTORY,
        Ev_GetFileType ''root/sub/..'' ERR_OK FILE_TYPE_DIRECTORY,
        Ev_GetFileType ''root/sub/c.txt'' ERR_OK FILE_TYPE_REGULAR,
        Ev_DeleteFileX ''root/sub/c.txt'' True,
        Ev_RmDir ''root/sub'' ERR_OK,
        Ev_RmDir ''root'' ERR_DIRECTORY_NOT_EMPTY])"
  by (simp add: tab_os_def del_tables_def del_state_def tab_listing_def tab_children_def
      tab_join_def tab_add_slash_def suffix_def tab_GetFileType_def tab_DeleteFileX_def
      tab_RmDir_def IsSpecialDirName_def Let_def)

text \<open>
  Claim C1. For every directory name that is neither empty nor a pseudo-entry,
  \<open>RmDirRecursively\<close> visits every entry listed under the directory and does not stop at
  the first failure: an entry whose type query fails is skipped, a directory that is no
  pseudo-entry is removed by recursion, any other entry by deleting the file, and at
  last the directory itself is removed. It returns true if and only if every deletion
  it attempted succeeded, the final removal included, so one entry that cannot be
  deleted does not keep its siblings from being deleted. The call returns whenever
  directories nest to a bounded depth (\<open>ranked\<close>); its log of calls is the same with
  and without observation and belongs to the language \<open>rm_trace\<close>.
\<close>

theorem RmDirRecursively_best_effort:
  assumes "ranked os rank" and "dirName \<noteq> []" and "\<not> IsSpecialDirName dirName"
  shows "\<exists>res s' tr.
     (\<forall>n > rank dirName.
        RmDirRecursively (logged os) n dirName (s, []) = Some (res, (s', tr))
        \<and> RmDirRecursively os n dirName s = Some (res, s'))
     \<and> rm_trace (JoinFoldersToPath os) dirName tr res
     \<and> (proper_joins os \<longrightarrow> res = list_all deletion_ok tr)"
proof -
  let ?n0 = "Suc (rank dirName)"
  from RmDirRecursively_total [OF ranked_logged [OF assms(1)], of dirName ?n0 "(s, [])"]
  obtain res s' tr where
    run: "RmDirRecursively (logged os) ?n0 dirName (s, []) = Some (res, (s', tr))"
    by (metis lessI surj_pair)
  have "RmDirRecursively (logged os) n dirName (s, []) = Some (res, (s', tr))
      \<and> RmDirRecursively os n dirName s = Some (res, s')" if "n > rank dirName" for n
  proof -
    from that have "?n0 \<le> n" by simp
    from RmDirRecursively_fuel [OF run this]
    have l: "RmDirRecursively (logged os) n dirName (s, []) = Some (res, (s', tr))" .
    with RmDirRecursively_logged [of os n dirName s "[]"]
    show ?thesis by simp
  qed
  moreover from RmDirRecursively_trace [OF run]
  have t: "rm_trace (JoinFoldersToPath os) dirName tr res" by simp
  moreover have "res = list_all deletion_ok tr" if "proper_joins os"
    using trace_deletions(1) [OF _ t] that assms(2,3) unfolding proper_joins_def by blast
  ultimately show ?thesis by blast
qed

theorem RmDirRecursively_best_effort_witness:
  "ranked (tab_os del_tables) del_rank \<and> ''root'' \<noteq> [] \<and> \<not> IsSpecialDirName ''root''
   \<and> proper_joins (tab_os del_tables)
   \<and> (\<exists>tr. RmDirRecursively (logged (tab_os del_tables)) 3 ''root'' (del_state, []) =
         Some (False, ([''root'', ''root/.'', ''root/..'', ''root/a.txt''], tr))
       \<and> rm_trace tab_join ''root'' tr False
       \<and> \<not> list_all deletion_ok tr)"
proof -
  have d: "''root'' \<noteq> []" "\<not> IsSpecialDirName ''root''"
    by (simp_all add: IsSpecialDirName_def)
  have j: "JoinFoldersToPath (tab_os del_tables) = tab_join"
    by (simp add: tab_os_def)
  have r: "del_rank ''root'' < 3"
    by (simp add: del_rank_def)
  from RmDirRecursively_best_effort [OF ranked_del d, of del_state]
  obtain res s' tr where
    run: "\<forall>n > del_rank ''root''.
        RmDirRecursively (logged (tab_os del_tables)) n ''root'' (del_state, []) = Some (res, (s', tr))
        \<and> RmDirRecursively (tab_os del_tables) n ''root'' del_state = Some (res, s')"
    and t: "rm_trace tab_join ''root'' tr res"
    and ok: "proper_joins (tab_os del_tables) \<longrightarrow> res = list_all deletion_ok tr"
    unfolding j by blast
  from run r have
    l: "RmDirRecursively (logged (tab_os del_tables)) 3 ''root'' (del_state, []) = Some (res, (s', tr))"
    and u: "RmDirRecursively (tab_os del_tables) 3 ''root'' del_state = Some (res, s')"
    by blast+
  have "(3::nat) = Suc (Suc (Suc 0))" by simp
  with u del_run have res: "res = False" "s' = [''root'', ''root/.'', ''root/..'', ''root/a.txt'']"
    by simp_all
  with ok proper_joins_tab have "\<not> list_all deletion_ok tr" by blast
  with l t res show ?thesis using ranked_del d proper_joins_tab by blast
qed

section \<open>Listing a directory tree\<close>
lemma mask_bits [simp]:
  "(2::32 word) AND 1 = 0" "(2::32 word) AND 4 = 0" "(4::32 word) AND 1 = 0" "(4::32 word) AND 2 = 0"
  "(2::32 word) AND 2 = 2" "(4::32 word) AND 4 = 4"
  by simp_all

lemma GetFilesByType_loop_regular:
  "\<forall>e \<in> set es. node_models os s d (fst e) (snd e) \<Longrightarrow>
   GetFilesByType_loop os d (EFileType_bits FILE_TYPE_REGULAR) (map fst es) out s =
     (out @ map (\<lambda>e. (fst e, FILE_TYPE_REGULAR)) (filter (\<lambda>e. snd e = Regular) es), s)"
proof (induction es arbitrary: out)
  case Nil
  show ?case by simp
next
  case (Cons e es)
  obtain n t where e: "e = (n, t)" by (cases e)
  from Cons.prems have m: "node_models os s d n t" and rest: "\<forall>e \<in> set es. node_models os s d (fst e) (snd e)"
    by (simp_all add: e)
  show ?case
  proof (cases t)
    case (Unreadable err)
    with m obtain ty where "GetFileType os (JoinFoldersToPath os d n) s = ((err, ty), s)" "err \<noteq> ERR_OK"
      by (cases "GetFileType os (JoinFoldersToPath os d n) s") auto
    then show ?thesis using Cons.IH [OF rest] e Unreadable by simp
  qed (use m Cons.IH [OF rest] e in simp_all)
qed

lemma GetFilesByType_loop_directory:
  "\<forall>e \<in> set es. node_models os s d (fst e) (snd e) \<Longrightarrow>
   GetFilesByType_loop os d (EFileType_bits FILE_TYPE_DIRECTORY) (map fst es) out s =
     (out @ map (\<lambda>e. (fst e, FILE_TYPE_DIRECTORY)) (filter (\<lambda>e. is_Dir (snd e)) es), s)"
proof (induction es arbitrary: out)
  case Nil
  show ?case by simp
next
  case (Cons e es)
  obtain n t where e: "e = (n, t)" by (cases e)
  from Cons.prems have m: "node_models os s d n t" and rest: "\<forall>e \<in> set es. node_models os s d (fst e) (snd e)"
    by (simp_all add: e)
  show ?case
  proof (cases t)
    case (Unreadable err)
    with m obtain ty where "GetFileType os (JoinFoldersToPath os d n) s = ((err, ty), s)" "err \<noteq> ERR_OK"
      by (cases "GetFileType os (JoinFoldersToPath os d n) s") auto
    then show ?thesis using Cons.IH [OF rest] e Unreadable by simp
  qed (use m Cons.IH [OF rest] e in simp_all)
qed

lemma GetFilesRecursively_files_regular:
  "GetFilesRecursively_files os d (map (\<lambda>e. (fst e, FILE_TYPE_REGULAR)) xs) fl =
     Inr (fl @ map (\<lambda>e. JoinPath os d (fst e)) xs)"
  by (induction xs arbitrary: fl) simp_all

lemma GetFilesRecursively_subdirs_directory:
  assumes "\<forall>e \<in> set ds. \<not> IsSpecialDirName (fst e) \<longrightarrow>
     (\<forall>fl. rec (JoinPath os d (fst e)) fl s = Some (Inr (fl @ g e), s))"
  shows "GetFilesRecursively_subdirs rec os d (map (\<lambda>e. (fst e, FILE_TYPE_DIRECTORY)) ds) fl s =
     Some (Inr (fl @ concat (map g (filter (\<lambda>e. \<not> IsSpecialDirName (fst e)) ds))), s)"
  using assms
proof (induction ds arbitrary: fl)
  case Nil
  show ?case by simp
next
  case (Cons e ds)
  then show ?case by (simp add: IsSpecialDirName_def)
qed

lemma height_entry: "e \<in> set es \<Longrightarrow> height (snd e) < height (Dir es)"
proof -
  assume "e \<in> set es"
  then have "height (snd e) \<in> set (0 # map (\<lambda>e. height (snd e)) es)" by auto
  then have "height (snd e) \<le> Max (set (0 # map (\<lambda>e. height (snd e)) es))"
    by (intro Max_ge) auto
  moreover have "fold max (map (\<lambda>e. height (snd e)) es) 0 = Max (set (0 # map (\<lambda>e. height (snd e)) es))"
    by (rule Max.set_eq_fold [symmetric])
  ultimately show ?thesis by (simp only: height.simps less_Suc_eq_le)
qed

lemma filter_is_Dir_special:
  "filter (\<lambda>e. \<not> IsSpecialDirName (fst e)) (filter (\<lambda>e. is_Dir (snd e)) es) =
   filter (\<lambda>e. is_Dir (snd e) \<and> \<not> IsSpecialDirName (fst e)) es"
  by (induction es) auto

lemma GetFilesRecursively_files_of:
  "GetFilesByRegExp os d ''.*'' s = (map fst es, s) \<Longrightarrow>
   \<forall>e \<in> set es. node_models os s d (fst e) (snd e) \<Longrightarrow>
   height (Dir es) \<le> n \<Longrightarrow>
   GetFilesRecursively os n d fl s = Some (Inr (fl @ files_of os d (Dir es)), s)"
proof (induction n arbitrary: d es fl)
  case 0
  then show ?case by simp
next
  case (Suc n)
  have sub: "\<forall>e \<in> set (filter (\<lambda>e. is_Dir (snd e)) es). \<not> IsSpecialDirName (fst e) \<longrightarrow>
     (\<forall>fl. GetFilesRecursively os n (JoinPath os d (fst e)) fl s =
        Some (Inr (fl @ files_of os (JoinPath os d (fst e)) (snd e)), s))"
  proof (intro ballI impI allI)
    fix e fl
    assume e: "e \<in> set (filter (\<lambda>e. is_Dir (snd e)) es)" and ns: "\<not> IsSpecialDirName (fst e)"
    then obtain es' where t: "snd e = Dir es'" by (cases "snd e") auto
    from e have mem: "e \<in> set es" by simp
    with Suc.prems(2) have "node_models os s d (fst e) (Dir es')" using t by metis
    with ns have l: "GetFilesByRegExp os (JoinPath os d (fst e)) ''.*'' s = (map fst es', s)"
      and m: "\<forall>x \<in> set es'. node_models os s (JoinPath os d (fst e)) (fst x) (snd x)"
      by auto
    from height_entry [OF mem] Suc.prems(3) have h: "height (Dir es') \<le> n"
      using t by simp
    show "GetFilesRecursively os n (JoinPath os d (fst e)) fl s =
        Some (Inr (fl @ files_of os (JoinPath os d (fst e)) (snd e)), s)"
      using Suc.IH [OF l m h] t by simp
  qed
  have subdirs: "GetFilesRecursively_subdirs (\<lambda>d fl s'. GetFilesRecursively os n d fl s') os d
      (map (\<lambda>e. (fst e, FILE_TYPE_DIRECTORY)) (filter (\<lambda>e. is_Dir (snd e)) es)) fl1 s =
     Some (Inr (fl1 @ concat (map (\<lambda>e. files_of os (JoinPath os d (fst e)) (snd e))
        (filter (\<lambda>e. \<not> IsSpecialDirName (fst e)) (filter (\<lambda>e. is_Dir (snd e)) es)))), s)" for fl1
    by (rule GetFilesRecursively_subdirs_directory) (use sub in blast)
  show ?case
    using Suc.prems(1,2)
    by (simp add: GetFilesByType_def GetFilesByType_loop_regular GetFilesByType_loop_directory
        GetFilesRecursively_files_regular subdirs filter_is_Dir_special
        del: EFileType_bits.simps height.simps)
qed

lemma files_of_regular_under:
  "set (files_of os d t) = {p. regular_under os d t p}"
proof (induction os d t rule: files_of.induct)
  case (1 os d es)
  show ?case
  proof (intro set_eqI iffI)
    fix p assume "p \<in> set (files_of os d (Dir es))"
    then consider e where "e \<in> set es" "snd e = Regular" "p = JoinPath os d (fst e)"
      | e where "e \<in> set es" "is_Dir (snd e)" "\<not> IsSpecialDirName (fst e)"
         "p \<in> set (files_of os (JoinPath os d (fst e)) (snd e))"
      by auto
    then show "p \<in> {p. regular_under os d (Dir es) p}"
    proof cases
      case 1
      then have "(fst e, Regular) \<in> set es" by (metis prod.collapse)
      then show ?thesis using 1 by (auto intro: regular_under.here)
    next
      case 2
      then obtain es' where t: "snd e = Dir es'" by (cases "snd e") auto
      with 2 have "(fst e, Dir es') \<in> set es" by (metis prod.collapse)
      moreover have "regular_under os (JoinPath os d (fst e)) (Dir es') p"
        using "1.IH" [of e] 2 t by auto
      ultimately show ?thesis using 2 by (auto intro: regular_under.below)
    qed
  next
    fix p assume "p \<in> {p. regular_under os d (Dir es) p}"
    then have "regular_under os d (Dir es) p" by simp
    then show "p \<in> set (files_of os d (Dir es))"
    proof (cases rule: regular_under.cases)
      case (here n)
      then show ?thesis by force
    next
      case (below n es')
      then have "p \<in> set (files_of os (JoinPath os d n) (Dir es'))"
        using "1.IH" [of "(n, Dir es')"] by auto
      with below show ?thesis by force
    qed
  qed
qed (auto elim: regular_under.cases)

lemma tree_models: "dir_models (tab_os tree_tables) tree_state ''root'' tree_entries"
  by (simp add: dir_models_def tab_os_def tree_tables_def tree_state_def tree_entries_def
      tab_listing_def tab_children_def tab_join_def tab_add_slash_def tab_GetFileType_def
      IsSpecialDirName_def suffix_def)

lemma tree_files: "files_of (tab_os tree_tables) ''root'' (Dir tree_entries) = [''root/a.txt'', ''root/sub/b.txt'']"
  by (simp add: tab_os_def tree_entries_def IsSpecialDirName_def tab_join_def tab_add_slash_def suffix_def)

lemma tree_height: "height (Dir tree_entries) = 3"
  by (simp add: tree_entries_def)


text \<open>
  Claim C2. For every directory tree, \<open>GetFilesRecursively\<close> appends to \<open>filesList\<close> exactly
  the full paths of the regular files anywhere under the root and no path of a
  directory: first the regular files of the directory itself, then, depth first, those
  of its subdirectories, where the pseudo-entries \<open>.\<close> and \<open>..\<close> are not entered. On
  \<open>root/{a.txt, sub/{b.txt}}\<close> the result is \<open>root/a.txt\<close>, \<open>root/sub/b.txt\<close>. The call
  returns for every recursion bound from the height of the tree on, without failing a
  check and leaving the state as it is.
\<close>

theorem GetFilesRecursively_lists_regular_files:
  assumes "dir_models os s directory es"
  shows "(\<forall>n \<ge> height (Dir es).
        GetFilesRecursively os n directory filesList s =
          Some (Inr (filesList @ files_of os directory (Dir es)), s))
    \<and> set (files_of os directory (Dir es)) = {p. regular_under os directory (Dir es) p}"
proof -
  from assms have
    l: "GetFilesByRegExp os directory ''.*'' s = (map fst es, s)" and
    m: "\<forall>e \<in> set es. node_models os s directory (fst e) (snd e)"
    unfolding dir_models_def by blast+
  have "GetFilesRecursively os n directory filesList s =
      Some (Inr (filesList @ files_of os directory (Dir es)), s)" if "n \<ge> height (Dir es)" for n
    using GetFilesRecursively_files_of [OF l m that] .
  then show ?thesis using files_of_regular_under by blast
qed

theorem GetFilesRecursively_lists_regular_files_witness:
  "dir_models (tab_os tree_tables) tree_state ''root'' tree_entries
   \<and> GetFilesRecursively (tab_os tree_tables) 3 ''root'' [] tree_state =
       Some (Inr [''root/a.txt'', ''root/sub/b.txt''], tree_state)
   \<and> {p. regular_under (tab_os tree_tables) ''root'' (Dir tree_entries) p} =
       {''root/a.txt'', ''root/sub/b.txt''}"
proof -
  from GetFilesRecursively_lists_regular_files [OF tree_models, of "[]"]
  have run: "\<forall>n \<ge> height (Dir tree_entries).
        GetFilesRecursively (tab_os tree_tables) n ''root'' [] tree_state =
          Some (Inr ([] @ files_of (tab_os tree_tables) ''root'' (Dir tree_entries)), tree_state)"
    and st: "set (files_of (tab_os tree_tables) ''root'' (Dir tree_entries)) =
        {p. regular_under (tab_os tree_tables) ''root'' (Dir tree_entries) p}"
    by blast+
  from run tree_height have
    "GetFilesRecursively (tab_os tree_tables) 3 ''root'' [] tree_state =
       Some (Inr ([] @ files_of (tab_os tree_tables) ''root'' (Dir tree_entries)), tree_state)"
    by (metis order_refl)
  then have "GetFilesRecursively (tab_os tree_tables) 3 ''root'' [] tree_state =
       Some (Inr [''root/a.txt'', ''root/sub/b.txt''], tree_state)"
    by (simp only: tree_files append_Nil)
  moreover from st have "{p. regular_under (tab_os tree_tables) ''root'' (Dir tree_entries) p} =
       {''root/a.txt'', ''root/sub/b.txt''}"
    by (simp only: tree_files) simp
  ultimately show ?thesis using tree_models by blast
qed

section \<open>Listing by extension\<close>

text \<open>
  For an extension whose characters after the leading dot all stand for themselves in a
  pattern, the pattern \<open>\\ext$\<close> selects exactly the listed names that end in the
  extension.
\<close>
lemma rx_tokens_plain:
  "\<forall>c \<in> set cs. rx_plain c \<Longrightarrow>
   rx_tokens (cs @ rest) = map_option ((@) (map Lit cs)) (rx_tokens rest)"
proof (induction cs)
  case Nil
  show ?case by (simp add: option.map_ident)
next
  case (Cons c cs)
  then show ?case by (simp add: rx_plain_def option.map_comp comp_def)
qed

lemma rx_tokens_ext:
  assumes "\<forall>c \<in> set tail. rx_plain c"
  shows "rx_tokens (CHR 0x5C # (CHR ''.'' # tail) @ ''$'') =
    Some (map Lit (CHR ''.'' # tail) @ [EndOfName])"
proof -
  have "rx_tokens (tail @ ''$'') = Some (map Lit tail @ [EndOfName])"
    using rx_tokens_plain [OF assms, of "''$''"] by simp
  then show ?thesis by (simp add: rx_word_char_def)
qed

lemma rx_items_lits:
  "rx_items (map Lit cs @ [EndOfName]) = Some (map (\<lambda>c. (Lit c, False)) cs @ [(EndOfName, False)])"
proof (induction cs)
  case Nil
  show ?case by simp
next
  case (Cons c cs)
  then show ?case by (cases cs) simp_all
qed

lemma rx_match_lits:
  "rx_match (map (\<lambda>c. (Lit c, False)) cs @ [(EndOfName, False)]) name = (name = cs)"
proof (induction cs arbitrary: name)
  case Nil
  show ?case by simp
next
  case (Cons c cs)
  then show ?case by (cases name) auto
qed

lemma regex_search_ext:
  assumes "\<forall>c \<in> set tail. rx_plain c"
  shows "regex_search (CHR 0x5C # (CHR ''.'' # tail) @ ''$'') name = Some (suffix (CHR ''.'' # tail) name)"
proof -
  have "rx_match (map (\<lambda>c. (Lit c, False)) (CHR ''.'' # tail) @ [(EndOfName, False)]) =
      (\<lambda>t. t = CHR ''.'' # tail)"
    by (rule ext) (rule rx_match_lits)
  moreover
  have "list_ex (\<lambda>t. t = CHR ''.'' # tail) (suffixes name) = suffix (CHR ''.'' # tail) name"
    by (auto simp: list_ex_iff in_set_suffixes)
  moreover have "rx_items (map Lit (CHR ''.'' # tail) @ [EndOfName]) =
      Some (map (\<lambda>c. (Lit c, False)) (CHR ''.'' # tail) @ [(EndOfName, False)])"
    by (rule rx_items_lits)
  ultimately show ?thesis
    unfolding regex_search_def rx_tokens_ext [OF assms]
    by (simp del: rx_items.simps rx_match.simps list.map)
qed

lemma GetFilesByExt_plain_extension:
  assumes "\<forall>c \<in> set tail. rx_plain c"
  shows "GetFilesByExt (tab_os tb) directory (CHR ''.'' # tail) outFiles s =
    (Inr (outFiles @ filter (suffix (CHR ''.'' # tail)) (tab_listing tb directory s)), s)"
  using regex_search_ext [OF assms]
  by (simp add: GetFilesByExt_def tab_os_def)


lemma GetFilesByExt_mwm:
  "GetFilesByExt (tab_os ext_tables) ''maps'' ''.mwm'' [] ext_state = (Inr [''World.mwm''], ext_state)"
proof -
  have "\<forall>c \<in> set ''mwm''. rx_plain c"
    by (simp add: rx_plain_def rx_operator_def)
  from GetFilesByExt_plain_extension [OF this, of ext_tables "''maps''" "[]" ext_state]
  show ?thesis
    by (simp add: tab_listing_def tab_children_def ext_tables_def ext_state_def tab_join_def
        tab_add_slash_def suffix_def append_eq_Cons_conv)
qed

text \<open>
  Claim C4. \<open>GetFilesByExt\<close> is to return only the names that end in the extension taken
  literally. The pattern it builds escapes the leading dot alone, so any later character
  of the extension that is an operator of the pattern language keeps that meaning: for
  the extension \<open>.tar.gz\<close> the second dot matches any character, and the name
  \<open>y.tarXgz\<close>, which does not end in \<open>.tar.gz\<close>, is returned beside \<open>x.tar.gz\<close>.
\<close>

theorem GetFilesByExt_unescaped_tail:
  "GetFilesByExt (tab_os ext_tables) ''maps'' ''.tar.gz'' [] ext_state =
     (Inr [''x.tar.gz'', ''y.tarXgz''], ext_state)
   \<and> \<not> suffix ''.tar.gz'' ''y.tarXgz''"
proof -
  have "GetFilesByExt (tab_os ext_tables) ''maps'' ''.tar.gz'' [] ext_state =
     (Inr [''x.tar.gz'', ''y.tarXgz''], ext_state)"
    by (simp add: GetFilesByExt_def tab_os_def tab_listing_def tab_children_def ext_tables_def
        ext_state_def tab_join_def tab_add_slash_def suffix_def regex_search_def
        rx_word_char_def rx_operator_def)
  moreover have "\<not> suffix ''.tar.gz'' ''y.tarXgz''"
    by (simp add: suffix_def append_eq_Cons_conv)
  ultimately show ?thesis by simp
qed

end
